theory Spec2Isabelle
  imports Main
begin

section \<open>Strings and the Go library functions the plugin calls\<close>

text \<open>
  A Go string is a sequence of bytes; it is modelled as a \<open>string\<close> (a list of
  8-bit characters), and \<open>len\<close> is \<open>length\<close>.  The functions of this section are
  the ones \<open>plugin.go\<close> imports from the Go standard library (\<open>strings\<close>,
  \<open>path/filepath\<close>, \<open>unicode/utf8\<close>), written out for the Unix build, where
  \<open>filepath.Separator\<close> is the slash.
\<close>

definition Separator :: char where
  "Separator = CHR ''/''"

definition IsPathSeparator :: "char \<Rightarrow> bool" where
  "IsPathSeparator c = (c = Separator)"

text \<open>\<open>strings.HasPrefix s p\<close>: \<open>len(s) >= len(p) && s[:len(p)] == p\<close>.\<close>

definition HasPrefix :: "string \<Rightarrow> string \<Rightarrow> bool" where
  "HasPrefix s p = (length p \<le> length s \<and> take (length p) s = p)"

text \<open>\<open>strings.Contains s sub\<close>: some suffix of \<open>s\<close> starts with \<open>sub\<close>.\<close>

fun Contains :: "string \<Rightarrow> string \<Rightarrow> bool" where
  "Contains [] sub = (sub = [])"
| "Contains (c # s) sub = (HasPrefix (c # s) sub \<or> Contains s sub)"

text \<open>\<open>strings.TrimPrefix s p\<close>: \<open>s\<close> without the leading \<open>p\<close>, if it has one.\<close>

definition TrimPrefix :: "string \<Rightarrow> string \<Rightarrow> string" where
  "TrimPrefix s p = (if HasPrefix s p then drop (length p) s else s)"

text \<open>\<open>strings.Join elems sep\<close>.\<close>

fun Join :: "string list \<Rightarrow> string \<Rightarrow> string" where
  "Join [] sep = []"
| "Join [e] sep = e"
| "Join (e # es) sep = e @ sep @ Join es sep"

text \<open>\<open>filepath.IsAbs\<close> on Unix: the path starts with a slash.\<close>

definition IsAbs :: "string \<Rightarrow> bool" where
  "IsAbs path = HasPrefix path ''/''"

subsection \<open>\<open>filepath.Clean\<close>\<close>

text \<open>
  \<open>filepath.Clean\<close> reads the path at index \<open>r\<close> and writes a buffer of \<open>w\<close> bytes;
  \<open>dotdot\<close> is the index in the buffer below which a \<open>..\<close> element must not
  backtrack.  In the model the part of the path still to be read is \<open>rest\<close>, the
  buffer is the list \<open>out\<close> and \<open>w\<close> is its length.

  Backtracking is the inner loop
  \<^verbatim>\<open>out.w--; for out.w > dotdot && !os.IsPathSeparator(out.index(out.w)) { out.w-- }\<close>:
  \<open>backtrack buf dotdot w\<close> is the value of \<open>out.w\<close> when the \<open>for\<close> loop is left,
  started at \<open>w\<close>.
\<close>

function backtrack :: "string \<Rightarrow> nat \<Rightarrow> nat \<Rightarrow> nat" where
  "backtrack buf dotdot w =
     (if w > dotdot \<and> \<not> IsPathSeparator (buf ! w) then backtrack buf dotdot (w - 1) else w)"
  by pat_completeness auto
termination
  by (relation "measure (\<lambda>(buf, dotdot, w). w)") auto

declare backtrack.simps [simp del]

text \<open>
  The main loop \<^verbatim>\<open>for r < n { switch { ... } }\<close>, one equation per iteration:
  an empty element (a separator), a \<open>.\<close> element, a \<open>..\<close> element (backtrack when
  possible, append it when the path is not rooted, drop it otherwise) and a real
  element, which is copied up to the next separator.
\<close>

function clean_loop :: "bool \<Rightarrow> string \<Rightarrow> string \<Rightarrow> nat \<Rightarrow> string" where
  "clean_loop rooted [] out dotdot = out"
| "clean_loop rooted (c # cs) out dotdot =
     (if IsPathSeparator c then clean_loop rooted cs out dotdot
      else if c = CHR ''.'' \<and> (cs = [] \<or> IsPathSeparator (hd cs)) then
        clean_loop rooted cs out dotdot
      else if c = CHR ''.'' \<and> hd cs = CHR ''.'' \<and> (tl cs = [] \<or> IsPathSeparator (hd (tl cs))) then
        (if length out > dotdot then
           clean_loop rooted (tl cs) (take (backtrack out dotdot (length out - 1)) out) dotdot
         else if \<not> rooted then
           clean_loop rooted (tl cs) ((if length out > 0 then out @ [Separator] else out) @ ''..'')
             (length ((if length out > 0 then out @ [Separator] else out) @ ''..''))
         else clean_loop rooted (tl cs) out dotdot)
      else
        clean_loop rooted (dropWhile (\<lambda>x. \<not> IsPathSeparator x) cs)
          ((if rooted \<and> length out \<noteq> 1 \<or> \<not> rooted \<and> length out \<noteq> 0
            then out @ [Separator] else out) @ c # takeWhile (\<lambda>x. \<not> IsPathSeparator x) cs)
          dotdot)"
  by pat_completeness auto
termination
  by (relation "measure (\<lambda>(rooted, rest, out, dotdot). length rest)")
    (auto simp add: less_Suc_eq_le length_dropWhile_le)

declare clean_loop.simps [simp del]

text \<open>
  \<open>Clean\<close> itself: the empty path is \<open>.\<close>; a rooted path starts the buffer with the
  separator and \<open>r, dotdot = 1, 1\<close>; an empty result is turned into \<open>.\<close>.  There is
  no volume name on Unix and \<open>FromSlash\<close> is the identity.
\<close>

definition Clean :: "string \<Rightarrow> string" where
  "Clean path =
     (if path = [] then ''.''
      else
        let rooted = IsPathSeparator (hd path);
            out = (if rooted then clean_loop rooted (tl path) [Separator] 1
                   else clean_loop rooted path [] 0)
        in if length out = 0 then ''.'' else out)"

subsection \<open>Ranging over a string: \<open>utf8.DecodeRuneInString\<close>\<close>

text \<open>
  \<^verbatim>\<open>for _, r := range org\<close> decodes the bytes of the string as UTF-8, one rune per
  iteration; a byte that does not start a valid encoding yields \<open>RuneError\<close>
  (\<open>U+FFFD\<close>) of width 1.  A rune is modelled as a natural number.  The masks and
  shifts of the decoder are written arithmetically: \<open>s0 & 0x1F\<close> is \<open>s0 mod 32\<close>,
  \<open>s1 & 0x3F\<close> is \<open>s1 mod 64\<close>, \<open>x << 6\<close> is \<open>x * 64\<close>, and the bit fields that
  \<open>|\<close> combines are disjoint, so \<open>|\<close> is \<open>+\<close>.
\<close>

type_synonym rune = nat

definition RuneError :: rune where
  "RuneError = 65533"

definition byte :: "char \<Rightarrow> nat" where
  "byte c = of_char c"

text \<open>
  The table \<open>first\<close> and \<open>acceptRanges\<close> of \<open>unicode/utf8\<close>: for a leading byte,
  the size of the encoding and the range allowed for the second byte, or \<open>None\<close>
  for a byte that starts no multi-byte encoding.
\<close>

definition first :: "nat \<Rightarrow> (nat \<times> nat \<times> nat) option" where
  "first s0 =
     (if 194 \<le> s0 \<and> s0 \<le> 223 then Some (2, 128, 191)
      else if s0 = 224 then Some (3, 160, 191)
      else if 225 \<le> s0 \<and> s0 \<le> 236 then Some (3, 128, 191)
      else if s0 = 237 then Some (3, 128, 159)
      else if 238 \<le> s0 \<and> s0 \<le> 239 then Some (3, 128, 191)
      else if s0 = 240 then Some (4, 144, 191)
      else if 241 \<le> s0 \<and> s0 \<le> 243 then Some (4, 128, 191)
      else if s0 = 244 then Some (4, 128, 143)
      else None)"

text \<open>The rune at the start of a non-empty string and its width in bytes.\<close>

definition DecodeRuneInString :: "string \<Rightarrow> rune \<times> nat" where
  "DecodeRuneInString s =
     (let n = length s; s0 = byte (s ! 0) in
      if s0 < 128 then (s0, 1)
      else case first s0 of
        None \<Rightarrow> (RuneError, 1)
      | Some (sz, lo, hi) \<Rightarrow>
          if n < sz then (RuneError, 1)
          else let s1 = byte (s ! 1) in
          if s1 < lo \<or> hi < s1 then (RuneError, 1)
          else if sz \<le> 2 then ((s0 mod 32) * 64 + s1 mod 64, 2)
          else let s2 = byte (s ! 2) in
          if s2 < 128 \<or> 191 < s2 then (RuneError, 1)
          else if sz \<le> 3 then ((s0 mod 16) * 4096 + (s1 mod 64) * 64 + s2 mod 64, 3)
          else let s3 = byte (s ! 3) in
          if s3 < 128 \<or> 191 < s3 then (RuneError, 1)
          else ((s0 mod 8) * 262144 + (s1 mod 64) * 4096 + (s2 mod 64) * 64 + s3 mod 64, 4))"

text \<open>The runes a \<open>range\<close> loop over the string visits, in order.\<close>

function runes :: "string \<Rightarrow> rune list" where
  "runes s =
     (if s = [] then []
      else fst (DecodeRuneInString s) # runes (drop (snd (DecodeRuneInString s)) s))"
  by pat_completeness auto
termination
proof (relation "measure length")
  show "wf (measure length)"
    by simp
next
  fix s :: string
  assume "s \<noteq> []"
  then have "0 < length s"
    by simp
  moreover have "0 < snd (DecodeRuneInString s)"
    by (simp add: DecodeRuneInString_def Let_def split: option.split prod.split)
  ultimately show "(drop (snd (DecodeRuneInString s)) s, s) \<in> measure length"
    by simp
qed

declare runes.simps [simp del]

section \<open>The plugin's validators\<close>

text \<open>
  A Go \<open>error\<close> result is \<open>None\<close> for \<open>nil\<close> and \<open>Some e\<close> for an error; the text of
  the error (\<open>err.Error()\<close>, what \<open>%v\<close> prints) is \<open>error_text e\<close>.
\<close>

datatype verror = AbsolutePath | PathTraversal | NameTooLong | InvalidCharacters

fun error_text :: "verror \<Rightarrow> string" where
  "error_text AbsolutePath = ''absolute paths are not allowed''"
| "error_text PathTraversal =
     ''path traversal detected: cannot use '' @ [CHR 0x27] @ ''..'' @ [CHR 0x27] @
     '' to escape working directory''"
| "error_text NameTooLong = ''organization name too long (max 128 characters)''"
| "error_text InvalidCharacters =
     ''organization name contains invalid characters: only alphanumeric, hyphens, and underscores are allowed''"

text \<open>\<open>validatePath\<close> validates a file path to prevent path traversal.\<close>

definition validatePath :: "string \<Rightarrow> verror option" where
  "validatePath path =
     (if path = [] then None
      else
        let cleaned = Clean path in
        if IsAbs cleaned then Some AbsolutePath
        else if HasPrefix cleaned ''..'' \<or> Contains cleaned ([Separator] @ ''..'')
          then Some PathTraversal
        else None)"

text \<open>
  The body of the loop of \<open>validateOrganization\<close>: whether the rune is a lower-case
  or upper-case letter, a digit, a hyphen or an underscore.
\<close>

definition valid_rune :: "rune \<Rightarrow> bool" where
  "valid_rune r =
     (let isLower = (r \<ge> byte CHR ''a'' \<and> r \<le> byte CHR ''z'');
          isUpper = (r \<ge> byte CHR ''A'' \<and> r \<le> byte CHR ''Z'');
          isDigit = (r \<ge> byte CHR ''0'' \<and> r \<le> byte CHR ''9'');
          isHyphen = (r = byte CHR ''-'');
          isUnderscore = (r = byte CHR ''_'')
      in \<not> (\<not> isLower \<and> \<not> isUpper \<and> \<not> isDigit \<and> \<not> isHyphen \<and> \<not> isUnderscore))"

fun check_runes :: "rune list \<Rightarrow> verror option" where
  "check_runes [] = None"
| "check_runes (r # rs) = (if \<not> valid_rune r then Some InvalidCharacters else check_runes rs)"

text \<open>\<open>validateOrganization\<close> validates the organization name format.\<close>

definition validateOrganization :: "string \<Rightarrow> verror option" where
  "validateOrganization org =
     (if org = [] then None
      else if length org > 128 then Some NameTooLong
      else check_runes (runes org))"

section \<open>Configuration\<close>

text \<open>
  A value of Go's \<open>any\<close> as it occurs in the raw configuration and in the outputs
  of a response: a string, a boolean, or something else (a number, \<open>nil\<close>).
\<close>

datatype any = AString string | ABool bool | AInt int | ANil

text \<open>\<open>Config\<close> represents the Hex plugin configuration.\<close>

record Config =
  APIKey :: string
  Organization :: string
  Replace :: bool
  Yes :: bool
  WorkDir :: string

text \<open>
  Modelled from the spec: \<open>helpers.ConfigParser.GetString\<close> of the plugin SDK, which is
  not part of the sources.  The specification gives the resolution order of a field as
  the explicit value in the raw configuration (if present and of compatible type), then
  the named environment variable, then the hard default.  The environment is a map from
  variable names to values; an empty name means that the field has no environment
  fallback.
\<close>

definition GetString :: "(string \<rightharpoonup> any) \<Rightarrow> (string \<rightharpoonup> string) \<Rightarrow> string \<Rightarrow> string \<Rightarrow> string \<Rightarrow> string" where
  "GetString raw env key envVar defaultVal =
     (case raw key of
        Some (AString v) \<Rightarrow> v
      | _ \<Rightarrow> (if envVar = [] then defaultVal
              else case env envVar of Some v \<Rightarrow> v | None \<Rightarrow> defaultVal))"

text \<open>
  Modelled from the spec: \<open>helpers.ConfigParser.GetBool\<close> of the plugin SDK, which is
  not part of the sources.  The specification lets a boolean field be a native boolean
  or the case-sensitive string \<open>true\<close> or \<open>false\<close>; anything else is the default.
\<close>

definition GetBool :: "(string \<rightharpoonup> any) \<Rightarrow> string \<Rightarrow> bool \<Rightarrow> bool" where
  "GetBool raw key defaultVal =
     (case raw key of
        Some (ABool b) \<Rightarrow> b
      | Some (AString v) \<Rightarrow>
          (if v = ''true'' then True else if v = ''false'' then False else defaultVal)
      | _ \<Rightarrow> defaultVal)"

text \<open>\<open>parseConfig\<close> parses the raw configuration into a typed \<open>Config\<close>.\<close>

definition parseConfig :: "(string \<rightharpoonup> string) \<Rightarrow> (string \<rightharpoonup> any) \<Rightarrow> Config" where
  "parseConfig env raw =
     \<lparr>APIKey = GetString raw env ''api_key'' ''HEX_API_KEY'' [],
      Organization = GetString raw env ''organization'' ''HEX_ORGANIZATION'' [],
      Replace = GetBool raw ''replace'' False,
      Yes = GetBool raw ''yes'' True,
      WorkDir = GetString raw env ''work_dir'' [] ''.''\<rparr>"

section \<open>Executing a hook\<close>

text \<open>
  The parts of the SDK's request and response that the plugin reads and writes.  A
  hook is a string (\<open>%s\<close> prints it); the release context carries the version.  A
  field of a response that the code does not set has Go's zero value: the empty
  string, the \<open>nil\<close> map.
\<close>

type_synonym Hook = string

record ReleaseContext =
  Version :: string
  TagName :: string
  Branch :: string
  CommitSHA :: string

record ExecuteRequest =
  Hook :: Hook
  Config :: "string \<rightharpoonup> any"
  Context :: ReleaseContext
  DryRun :: bool

record ExecuteResponse =
  Success :: bool
  Message :: string
  Error :: string
  Outputs :: "string \<rightharpoonup> any"

text \<open>
  \<open>CommandExecutor\<close> abstracts command execution: \<open>Run name args env dir\<close> returns the
  combined output and an error (\<open>None\<close> for \<open>nil\<close>, otherwise the text of the error).
  A \<open>call\<close> is one invocation of \<open>Run\<close>; \<open>publish\<close> returns, beside its response, the
  invocations it made, in order.
\<close>

type_synonym CommandExecutor = "string \<Rightarrow> string list \<Rightarrow> string list \<Rightarrow> string \<Rightarrow> string \<times> string option"

record call =
  Name :: string
  Args :: "string list"
  Env :: "string list"
  Dir :: string

text \<open>The arguments of the command: \<open>args\<close> after the three \<open>append\<close>s.\<close>

definition build_args :: "Config \<Rightarrow> string list" where
  "build_args cfg =
     (let args = [''hex.publish''];
          args = (if Organization cfg \<noteq> [] then args @ [''--organization'', Organization cfg] else args);
          args = (if Replace cfg then args @ [''--replace''] else args);
          args = (if Yes cfg then args @ [''--yes''] else args)
      in args)"

text \<open>\<open>publish\<close> executes \<open>mix hex.publish\<close> to publish the package to Hex.pm.\<close>

definition publish :: "CommandExecutor \<Rightarrow> Config \<Rightarrow> ReleaseContext \<Rightarrow> bool \<Rightarrow> ExecuteResponse \<times> call list" where
  "publish executor cfg releaseCtx dryRun =
     (case validatePath (WorkDir cfg) of
        Some err \<Rightarrow>
          (\<lparr>Success = False, Message = [], Error = ''invalid work_dir: '' @ error_text err,
            Outputs = Map.empty\<rparr>, [])
      | None \<Rightarrow>
     (case validateOrganization (Organization cfg) of
        Some err \<Rightarrow>
          (\<lparr>Success = False, Message = [], Error = ''invalid organization: '' @ error_text err,
            Outputs = Map.empty\<rparr>, [])
      | None \<Rightarrow>
     (let args = build_args cfg;
          version = TrimPrefix (Version releaseCtx) ''v''
      in
      if dryRun then
        (\<lparr>Success = True, Message = ''Would publish package to Hex.pm'', Error = [],
          Outputs = [''command'' \<mapsto> AString (''mix '' @ Join args '' ''),
                     ''version'' \<mapsto> AString version,
                     ''organization'' \<mapsto> AString (Organization cfg),
                     ''replace'' \<mapsto> ABool (Replace cfg)]\<rparr>, [])
      else if APIKey cfg = [] then
        (\<lparr>Success = False, Message = [],
          Error = ''HEX_API_KEY is required: set api_key in config or HEX_API_KEY environment variable'',
          Outputs = Map.empty\<rparr>, [])
      else
        let env = [''HEX_API_KEY='' @ APIKey cfg];
            calls = [\<lparr>Name = ''mix'', Args = args, Env = env, Dir = WorkDir cfg\<rparr>]
        in case executor ''mix'' args env (WorkDir cfg) of
          (output, Some err) \<Rightarrow>
            (\<lparr>Success = False, Message = [],
              Error = ''mix hex.publish failed: '' @ err @ [CHR 0x0A] @ ''Output: '' @ output,
              Outputs = Map.empty\<rparr>, calls)
        | (output, None) \<Rightarrow>
            (\<lparr>Success = True, Message = ''Published package v'' @ version @ '' to Hex.pm'',
              Error = [],
              Outputs = [''version'' \<mapsto> AString version,
                         ''organization'' \<mapsto> AString (Organization cfg),
                         ''output'' \<mapsto> AString output]\<rparr>, calls))))"

text \<open>
  \<open>Execute\<close> runs the plugin for a given hook.  The SDK's constant
  \<open>plugin.HookPostPublish\<close> is declared outside the sources, so it is a parameter;
  reading the configuration consults the environment \<open>env\<close>.
\<close>

definition Execute :: "Hook \<Rightarrow> CommandExecutor \<Rightarrow> (string \<rightharpoonup> string) \<Rightarrow> ExecuteRequest \<Rightarrow> ExecuteResponse \<times> call list" where
  "Execute HookPostPublish executor env req =
     (let cfg = parseConfig env (Config req) in
      if Hook req = HookPostPublish then publish executor cfg (Context req) (DryRun req)
      else (\<lparr>Success = True, Message = ''Hook '' @ Hook req @ '' not handled'', Error = [],
             Outputs = Map.empty\<rparr>, []))"

section \<open>Path components\<close>

text \<open>
  The notions in which the behaviour of \<open>validatePath\<close> is stated.  The components
  (segments) of a path are the pieces between its separators, as
  \<open>strings.Split path "/"\<close> returns them.
\<close>

fun segments :: "string \<Rightarrow> string list" where
  "segments [] = [[]]"
| "segments (c # cs) =
     (if IsPathSeparator c then [] # segments cs
      else case segments cs of [] \<Rightarrow> [[c]] | s # ss \<Rightarrow> (c # s) # ss)"

text \<open>
  Reading the components from left to right, empty and \<open>.\<close> components are dropped,
  a \<open>..\<close> component cancels the nearest name before it that is still there, and a
  \<open>..\<close> component that finds no such name stays at the front of the path.
  \<open>walk k ns\<close> continues from \<open>k\<close> leading \<open>..\<close> components followed by the names
  \<open>ns\<close>; \<open>render\<close> writes such a path.
\<close>

fun walk :: "nat \<Rightarrow> string list \<Rightarrow> string list \<Rightarrow> nat \<times> string list" where
  "walk k ns [] = (k, ns)"
| "walk k ns (s # ss) =
     (if s = [] \<or> s = ''.'' then walk k ns ss
      else if s = ''..'' then
        (if ns \<noteq> [] then walk k (butlast ns) ss else walk (Suc k) [] ss)
      else walk k (ns @ [s]) ss)"

definition render :: "nat \<Rightarrow> string list \<Rightarrow> string" where
  "render k ns = Join (replicate k ''..'' @ ns) [Separator]"

text \<open>
  A path climbs above the directory it starts from when one of its \<open>..\<close> components
  has no name left to cancel; \<open>d\<close> is the number of names not yet cancelled.
\<close>

fun climbs :: "nat \<Rightarrow> string list \<Rightarrow> bool" where
  "climbs d [] = False"
| "climbs d (s # ss) =
     (if s = [] \<or> s = ''.'' then climbs d ss
      else if s = ''..'' then (if d = 0 then True else climbs (d - 1) ss)
      else climbs (Suc d) ss)"

section \<open>Evaluating the validators on the inputs of the examples\<close>

lemma validatePath_dot: "validatePath ''.'' = None"
  by code_simp

lemma validateOrganization_empty: "validateOrganization [] = None"
  by (simp add: validateOrganization_def)


lemma validateOrganization_injection:
  "validateOrganization ''my org; rm -rf /'' = Some InvalidCharacters"
  by code_simp

lemma HasPrefix_Cons_single: "HasPrefix (c # s) [d] = (c = d)"
  by (simp add: HasPrefix_def)

lemma TrimPrefix_Cons_single: "TrimPrefix (c # s) [c] = s"
  by (simp add: TrimPrefix_def HasPrefix_def)

lemma TrimPrefix_no_prefix: "\<not> HasPrefix s p \<Longrightarrow> TrimPrefix s p = s"
  by (simp add: TrimPrefix_def)

section \<open>The dry-run preview\<close>



section \<open>The credential check\<close>

text \<open>
  Claim C3.  A \<open>publish\<close> that is not a dry run, for a configuration that passes both
  validators and has an empty credential, returns success = false with the fixed error
  that names the missing credential and the two ways to supply it (the \<open>api_key\<close> field
  of the configuration and the \<open>HEX_API_KEY\<close> environment variable), and makes no call
  of the executor.
\<close>

theorem missing_credential:
  assumes "validatePath (WorkDir cfg) = None"
    and "validateOrganization (Organization cfg) = None"
    and "APIKey cfg = []"
  shows "publish executor cfg releaseCtx False =
      (\<lparr>Success = False, Message = [],
        Error = ''HEX_API_KEY is required: set api_key in config or HEX_API_KEY environment variable'',
        Outputs = Map.empty\<rparr>, [])
    \<and> Contains (Error (fst (publish executor cfg releaseCtx False))) ''api_key''
    \<and> Contains (Error (fst (publish executor cfg releaseCtx False))) ''HEX_API_KEY''"
proof -
  have r: "publish executor cfg releaseCtx False =
      (\<lparr>Success = False, Message = [],
        Error = ''HEX_API_KEY is required: set api_key in config or HEX_API_KEY environment variable'',
        Outputs = Map.empty\<rparr>, [])"
    using assms by (simp add: publish_def Let_def)
  have "Contains ''HEX_API_KEY is required: set api_key in config or HEX_API_KEY environment variable'' ''api_key''"
    by code_simp
  moreover have "Contains ''HEX_API_KEY is required: set api_key in config or HEX_API_KEY environment variable'' ''HEX_API_KEY''"
    by code_simp
  ultimately show ?thesis
    by (simp add: r)
qed

theorem missing_credential_witness:
  "validatePath (WorkDir \<lparr>APIKey = [], Organization = [], Replace = False, Yes = True,
       WorkDir = ''.''\<rparr>) = None
   \<and> validateOrganization (Organization \<lparr>APIKey = [], Organization = [], Replace = False,
       Yes = True, WorkDir = ''.''\<rparr>) = None
   \<and> APIKey \<lparr>APIKey = [], Organization = [], Replace = False, Yes = True, WorkDir = ''.''\<rparr> = []
   \<and> publish (\<lambda>name args env dir. (''mock output'', None))
        \<lparr>APIKey = [], Organization = [], Replace = False, Yes = True, WorkDir = ''.''\<rparr>
        \<lparr>Version = ''1.0.0'', TagName = ''v1.0.0'', Branch = ''main'', CommitSHA = ''abc123''\<rparr> False
      = (\<lparr>Success = False, Message = [],
          Error = ''HEX_API_KEY is required: set api_key in config or HEX_API_KEY environment variable'',
          Outputs = Map.empty\<rparr>, [])"
proof -
  let ?cfg = "\<lparr>APIKey = [], Organization = [], Replace = False, Yes = True, WorkDir = ''.''\<rparr>"
  have p: "validatePath (WorkDir ?cfg) = None"
    by (simp add: validatePath_dot)
  have q: "validateOrganization (Organization ?cfg) = None"
    by (simp add: validateOrganization_empty)
  have k: "APIKey ?cfg = []"
    by simp
  from missing_credential [OF p q k, of "\<lambda>name args env dir. (''mock output'', None)"
      "\<lparr>Version = ''1.0.0'', TagName = ''v1.0.0'', Branch = ''main'', CommitSHA = ''abc123''\<rparr>"]
  show ?thesis
    using p q by simp
qed

section \<open>Version normalization\<close>

text \<open>
  Claim C6.  The version is normalized by removing one leading lower-case \<open>v\<close> and
  nothing else: \<open>v\<close> followed by \<open>s\<close> becomes \<open>s\<close> (also when \<open>s\<close> itself starts with
  \<open>v\<close>), and a version that does not start with \<open>v\<close> is unchanged.  The dry-run
  \<open>publish\<close> of a validated configuration reports the normalized version; for the
  version \<open>v2.0.0\<close> it reports \<open>2.0.0\<close>.
\<close>

theorem version_normalization:
  assumes "validatePath (WorkDir cfg) = None"
    and "validateOrganization (Organization cfg) = None"
  shows "TrimPrefix (''v'' @ s) ''v'' = s
    \<and> (\<not> HasPrefix s ''v'' \<longrightarrow> TrimPrefix s ''v'' = s)
    \<and> Outputs (fst (publish executor cfg (releaseCtx\<lparr>Version := ''v'' @ s\<rparr>) True)) ''version''
        = Some (AString s)
    \<and> (\<not> HasPrefix s ''v'' \<longrightarrow>
        Outputs (fst (publish executor cfg (releaseCtx\<lparr>Version := s\<rparr>) True)) ''version''
        = Some (AString s))
    \<and> Outputs (fst (publish executor cfg (releaseCtx\<lparr>Version := ''v2.0.0''\<rparr>) True)) ''version''
        = Some (AString ''2.0.0'')"
proof -
  have r: "Outputs (fst (publish executor cfg rc True)) ''version''
      = Some (AString (TrimPrefix (Version rc) ''v''))" for rc
    using assms by (simp add: publish_def Let_def)
  have a: "TrimPrefix (''v'' @ t) ''v'' = t" for t
    by (simp add: TrimPrefix_Cons_single)
  have b: "\<not> HasPrefix s ''v'' \<longrightarrow> TrimPrefix s ''v'' = s"
    by (simp add: TrimPrefix_no_prefix)
  have c: "TrimPrefix ''v2.0.0'' ''v'' = ''2.0.0''"
    using a [of "''2.0.0''"] by simp
  show ?thesis
    unfolding r using a [of s] b c by simp
qed

theorem version_normalization_witness:
  "validatePath (WorkDir \<lparr>APIKey = [], Organization = [], Replace = False, Yes = True,
       WorkDir = ''.''\<rparr>) = None
   \<and> validateOrganization (Organization \<lparr>APIKey = [], Organization = [], Replace = False,
       Yes = True, WorkDir = ''.''\<rparr>) = None
   \<and> \<not> HasPrefix ''V3.1'' ''v''
   \<and> TrimPrefix ''vv3.1'' ''v'' = ''v3.1''
   \<and> TrimPrefix ''V3.1'' ''v'' = ''V3.1''
   \<and> Outputs (fst (publish (\<lambda>name args env dir. (''unused'', None))
        \<lparr>APIKey = [], Organization = [], Replace = False, Yes = True, WorkDir = ''.''\<rparr>
        \<lparr>Version = ''v2.0.0'', TagName = ''v2.0.0'', Branch = ''main'', CommitSHA = ''abc123''\<rparr>
        True)) ''version'' = Some (AString ''2.0.0'')
   \<and> Outputs (fst (publish (\<lambda>name args env dir. (''unused'', None))
        \<lparr>APIKey = [], Organization = [], Replace = False, Yes = True, WorkDir = ''.''\<rparr>
        \<lparr>Version = ''V3.1'', TagName = ''v2.0.0'', Branch = ''main'', CommitSHA = ''abc123''\<rparr>
        True)) ''version'' = Some (AString ''V3.1'')"
proof -
  let ?cfg = "\<lparr>APIKey = [], Organization = [], Replace = False, Yes = True, WorkDir = ''.''\<rparr>"
  let ?rc = "\<lparr>Version = ''v2.0.0'', TagName = ''v2.0.0'', Branch = ''main'',
    CommitSHA = ''abc123''\<rparr>"
  have p: "validatePath (WorkDir ?cfg) = None"
    by (simp add: validatePath_dot)
  have q: "validateOrganization (Organization ?cfg) = None"
    by (simp add: validateOrganization_empty)
  have n: "\<not> HasPrefix ''V3.1'' ''v''"
    by (simp add: HasPrefix_def)
  from version_normalization [OF p q, of "''v3.1''"]
  have t1: "TrimPrefix ''vv3.1'' ''v'' = ''v3.1''"
    by simp
  from version_normalization [OF p q, of "''V3.1''"] n
  have t2: "TrimPrefix ''V3.1'' ''v'' = ''V3.1''"
    by simp
  from version_normalization [OF p q, of "''2.0.0''" "\<lambda>name args env dir. (''unused'', None)" ?rc]
  have t3: "Outputs (fst (publish (\<lambda>name args env dir. (''unused'', None)) ?cfg ?rc True))
      ''version'' = Some (AString ''2.0.0'')"
    by simp
  from version_normalization [OF p q, of "''V3.1''" "\<lambda>name args env dir. (''unused'', None)" ?rc] n
  have t4: "Outputs (fst (publish (\<lambda>name args env dir. (''unused'', None)) ?cfg
      \<lparr>Version = ''V3.1'', TagName = ''v2.0.0'', Branch = ''main'', CommitSHA = ''abc123''\<rparr> True))
      ''version'' = Some (AString ''V3.1'')"
    by simp
  show ?thesis
    using p q n t1 t2 t3 t4 by simp
qed

section \<open>Validation failures\<close>

text \<open>
  Claim C7.  A \<open>publish\<close>, dry run or not, whose working directory fails validation
  returns success = false with the error \<open>invalid work_dir: \<close> followed by the
  validator's message; one whose working directory is valid and whose organization fails
  validation returns success = false with the error \<open>invalid organization: \<close> followed
  by the validator's message.  Whenever one of the two validators fails, the response
  has success = false, its error starts with one of the two prefixes, and the executor
  is not called.  With the default working directory, the organization
  \<open>my org; rm -rf /\<close> gives an invalid-organization error and no call of the executor.
\<close>

theorem validation_failure:
  "(validatePath (WorkDir cfg) = Some e \<longrightarrow>
      publish executor cfg releaseCtx dryRun =
        (\<lparr>Success = False, Message = [], Error = ''invalid work_dir: '' @ error_text e,
          Outputs = Map.empty\<rparr>, []))
   \<and> (validatePath (WorkDir cfg) = None \<and> validateOrganization (Organization cfg) = Some e \<longrightarrow>
      publish executor cfg releaseCtx dryRun =
        (\<lparr>Success = False, Message = [], Error = ''invalid organization: '' @ error_text e,
          Outputs = Map.empty\<rparr>, []))
   \<and> (validatePath (WorkDir cfg) \<noteq> None \<or> validateOrganization (Organization cfg) \<noteq> None \<longrightarrow>
      \<not> Success (fst (publish executor cfg releaseCtx dryRun))
      \<and> (HasPrefix (Error (fst (publish executor cfg releaseCtx dryRun))) ''invalid work_dir: ''
         \<or> HasPrefix (Error (fst (publish executor cfg releaseCtx dryRun))) ''invalid organization: '')
      \<and> snd (publish executor cfg releaseCtx dryRun) = [])
   \<and> (WorkDir cfg = ''.'' \<and> Organization cfg = ''my org; rm -rf /'' \<longrightarrow>
      publish executor cfg releaseCtx dryRun =
        (\<lparr>Success = False, Message = [],
          Error = ''invalid organization: organization name contains invalid characters: only alphanumeric, hyphens, and underscores are allowed'',
          Outputs = Map.empty\<rparr>, []))"
proof -
  have a: "validatePath (WorkDir cfg) = Some e \<longrightarrow>
      publish executor cfg releaseCtx dryRun =
        (\<lparr>Success = False, Message = [], Error = ''invalid work_dir: '' @ error_text e,
          Outputs = Map.empty\<rparr>, [])" for e
    by (simp add: publish_def)
  have b: "validatePath (WorkDir cfg) = None \<and> validateOrganization (Organization cfg) = Some e \<longrightarrow>
      publish executor cfg releaseCtx dryRun =
        (\<lparr>Success = False, Message = [], Error = ''invalid organization: '' @ error_text e,
          Outputs = Map.empty\<rparr>, [])" for e
    by (simp add: publish_def)
  have c: "validatePath (WorkDir cfg) \<noteq> None \<or> validateOrganization (Organization cfg) \<noteq> None \<longrightarrow>
      \<not> Success (fst (publish executor cfg releaseCtx dryRun))
      \<and> (HasPrefix (Error (fst (publish executor cfg releaseCtx dryRun))) ''invalid work_dir: ''
         \<or> HasPrefix (Error (fst (publish executor cfg releaseCtx dryRun))) ''invalid organization: '')
      \<and> snd (publish executor cfg releaseCtx dryRun) = []"
  proof (cases "validatePath (WorkDir cfg)")
    case (Some e1)
    with a [of e1] show ?thesis
      by (simp add: HasPrefix_def)
  next
    case None
    show ?thesis
    proof (cases "validateOrganization (Organization cfg)")
      case (Some e2)
      with None b [of e2] show ?thesis
        by (simp add: HasPrefix_def)
    next
      case n2: None
      with None show ?thesis
        by simp
    qed
  qed
  have d: "WorkDir cfg = ''.'' \<and> Organization cfg = ''my org; rm -rf /'' \<longrightarrow>
      publish executor cfg releaseCtx dryRun =
        (\<lparr>Success = False, Message = [],
          Error = ''invalid organization: organization name contains invalid characters: only alphanumeric, hyphens, and underscores are allowed'',
          Outputs = Map.empty\<rparr>, [])"
    using b [of InvalidCharacters]
    by (simp add: validatePath_dot validateOrganization_injection)
  from a [of e] b [of e] c d show ?thesis
    by blast
qed

theorem validation_failure_witness:
  "validateOrganization (Organization \<lparr>APIKey = ''secret'', Organization = ''my org; rm -rf /'',
       Replace = False, Yes = True, WorkDir = ''.''\<rparr>) \<noteq> None
   \<and> publish (\<lambda>name args env dir. (''mock output'', None))
        \<lparr>APIKey = ''secret'', Organization = ''my org; rm -rf /'', Replace = False, Yes = True,
          WorkDir = ''.''\<rparr>
        \<lparr>Version = ''1.0.0'', TagName = ''v1.0.0'', Branch = ''main'', CommitSHA = ''abc123''\<rparr>
        False
      = (\<lparr>Success = False, Message = [],
          Error = ''invalid organization: organization name contains invalid characters: only alphanumeric, hyphens, and underscores are allowed'',
          Outputs = Map.empty\<rparr>, [])
   \<and> validatePath (WorkDir \<lparr>APIKey = ''secret'', Organization = [], Replace = False, Yes = True,
       WorkDir = ''../secret''\<rparr>) = Some PathTraversal
   \<and> publish (\<lambda>name args env dir. (''mock output'', None))
        \<lparr>APIKey = ''secret'', Organization = [], Replace = False, Yes = True,
          WorkDir = ''../secret''\<rparr>
        \<lparr>Version = ''1.0.0'', TagName = ''v1.0.0'', Branch = ''main'', CommitSHA = ''abc123''\<rparr>
        True
      = (\<lparr>Success = False, Message = [],
          Error = ''invalid work_dir: '' @ error_text PathTraversal,
          Outputs = Map.empty\<rparr>, [])
   \<and> snd (publish (\<lambda>name args env dir. (''mock output'', None))
        \<lparr>APIKey = ''secret'', Organization = ''my org; rm -rf /'', Replace = False, Yes = True,
          WorkDir = ''../secret''\<rparr>
        \<lparr>Version = ''1.0.0'', TagName = ''v1.0.0'', Branch = ''main'', CommitSHA = ''abc123''\<rparr>
        False) = []"
proof -
  let ?ex = "\<lambda>name args env dir. (''mock output'', None :: string option)"
  let ?rc = "\<lparr>Version = ''1.0.0'', TagName = ''v1.0.0'', Branch = ''main'',
    CommitSHA = ''abc123''\<rparr>"
  let ?cfg1 = "\<lparr>APIKey = ''secret'', Organization = ''my org; rm -rf /'', Replace = False,
    Yes = True, WorkDir = ''.''\<rparr>"
  let ?cfg2 = "\<lparr>APIKey = ''secret'', Organization = [], Replace = False, Yes = True,
    WorkDir = ''../secret''\<rparr>"
  have o: "validateOrganization (Organization ?cfg1) \<noteq> None"
    by (simp add: validateOrganization_injection)
  have w: "validatePath ''../secret'' = Some PathTraversal"
    by code_simp
  then have w2: "validatePath (WorkDir ?cfg2) = Some PathTraversal"
    by simp
  from validation_failure [of ?cfg1 InvalidCharacters ?ex ?rc False]
  have r1: "publish ?ex ?cfg1 ?rc False =
      (\<lparr>Success = False, Message = [],
        Error = ''invalid organization: organization name contains invalid characters: only alphanumeric, hyphens, and underscores are allowed'',
        Outputs = Map.empty\<rparr>, [])"
    by simp
  from validation_failure [of ?cfg2 PathTraversal ?ex ?rc True] w2
  have r2: "publish ?ex ?cfg2 ?rc True =
      (\<lparr>Success = False, Message = [], Error = ''invalid work_dir: '' @ error_text PathTraversal,
        Outputs = Map.empty\<rparr>, [])"
    by simp
  let ?cfg3 = "\<lparr>APIKey = ''secret'', Organization = ''my org; rm -rf /'', Replace = False,
    Yes = True, WorkDir = ''../secret''\<rparr>"
  have w3: "validatePath (WorkDir ?cfg3) \<noteq> None \<or> validateOrganization (Organization ?cfg3) \<noteq> None"
    using w by simp
  from validation_failure [of ?cfg3 PathTraversal ?ex ?rc False] w3
  have r3: "snd (publish ?ex ?cfg3 ?rc False) = []"
    by blast
  from o r1 w2 r2 r3 show ?thesis
    by blast
qed

section \<open>Running the command\<close>

text \<open>
  Claim C8.  For a validated configuration with a credential, a \<open>publish\<close> that is not a
  dry run calls the executor exactly once (\<open>mix\<close>, the arguments, the credential as
  \<open>HEX_API_KEY\<close>, the working directory), and the success flag of the response is the
  outcome of that call.  If the executor returns no error, the response has
  success = true, the message \<open>Published package v<version> to Hex.pm\<close> with the
  normalized version, and outputs with the version, the organization and the captured
  output.  If the executor returns an error, the response has success = false and an
  error text that contains the executor's error and the captured output.  The version
  in the message and in the outputs is the release version without its leading \<open>v\<close>:
  for a release version \<open>v\<close> followed by \<open>s\<close> the message is
  \<open>Published package v\<close>, \<open>s\<close>, \<open> to Hex.pm\<close> and the reported version is \<open>s\<close>, and
  a release version that does not start with \<open>v\<close> is used as it is.  For version
  \<open>1.0.0\<close>, and for version \<open>v1.0.0\<close>, the message is
  \<open>Published package v1.0.0 to Hex.pm\<close>.
\<close>

theorem executor_outcome:
  assumes "validatePath (WorkDir cfg) = None"
    and "validateOrganization (Organization cfg) = None"
    and "APIKey cfg \<noteq> []"
    and "executor ''mix'' (build_args cfg) [''HEX_API_KEY='' @ APIKey cfg] (WorkDir cfg) = (output, err)"
  shows "snd (publish executor cfg releaseCtx False) =
      [\<lparr>Name = ''mix'', Args = build_args cfg, Env = [''HEX_API_KEY='' @ APIKey cfg],
        Dir = WorkDir cfg\<rparr>]
    \<and> Success (fst (publish executor cfg releaseCtx False)) = (err = None)
    \<and> (err = None \<longrightarrow>
        fst (publish executor cfg releaseCtx False) =
          \<lparr>Success = True,
            Message = ''Published package v'' @ TrimPrefix (Version releaseCtx) ''v'' @ '' to Hex.pm'',
            Error = [],
            Outputs = [''version'' \<mapsto> AString (TrimPrefix (Version releaseCtx) ''v''),
                       ''organization'' \<mapsto> AString (Organization cfg),
                       ''output'' \<mapsto> AString output]\<rparr>)
    \<and> (err = None \<and> Version releaseCtx = ''1.0.0'' \<longrightarrow>
        Message (fst (publish executor cfg releaseCtx False)) = ''Published package v1.0.0 to Hex.pm'')
    \<and> (\<forall>e. err = Some e \<longrightarrow>
        fst (publish executor cfg releaseCtx False) =
          \<lparr>Success = False, Message = [],
            Error = ''mix hex.publish failed: '' @ e @ [CHR 0x0A] @ ''Output: '' @ output,
            Outputs = Map.empty\<rparr>)
    \<and> (err = None \<and> Version releaseCtx = ''v'' @ s \<longrightarrow>
        fst (publish executor cfg releaseCtx False) =
          \<lparr>Success = True, Message = ''Published package v'' @ s @ '' to Hex.pm'', Error = [],
            Outputs = [''version'' \<mapsto> AString s,
                       ''organization'' \<mapsto> AString (Organization cfg),
                       ''output'' \<mapsto> AString output]\<rparr>)
    \<and> (err = None \<and> \<not> HasPrefix (Version releaseCtx) ''v'' \<longrightarrow>
        fst (publish executor cfg releaseCtx False) =
          \<lparr>Success = True,
            Message = ''Published package v'' @ Version releaseCtx @ '' to Hex.pm'', Error = [],
            Outputs = [''version'' \<mapsto> AString (Version releaseCtx),
                       ''organization'' \<mapsto> AString (Organization cfg),
                       ''output'' \<mapsto> AString output]\<rparr>)
    \<and> (err = None \<and> Version releaseCtx = ''v1.0.0'' \<longrightarrow>
        Message (fst (publish executor cfg releaseCtx False)) = ''Published package v1.0.0 to Hex.pm'')"
proof (cases err)
  case None
  with assms have r: "publish executor cfg releaseCtx False =
      (\<lparr>Success = True,
        Message = ''Published package v'' @ TrimPrefix (Version releaseCtx) ''v'' @ '' to Hex.pm'',
        Error = [],
        Outputs = [''version'' \<mapsto> AString (TrimPrefix (Version releaseCtx) ''v''),
                   ''organization'' \<mapsto> AString (Organization cfg),
                   ''output'' \<mapsto> AString output]\<rparr>,
       [\<lparr>Name = ''mix'', Args = build_args cfg, Env = [''HEX_API_KEY='' @ APIKey cfg],
         Dir = WorkDir cfg\<rparr>])"
    by (simp add: publish_def Let_def)
  have t1: "TrimPrefix ''1.0.0'' ''v'' = ''1.0.0''"
    by (rule TrimPrefix_no_prefix) (simp add: HasPrefix_def)
  have t2: "TrimPrefix (''v'' @ t) ''v'' = t" for t
    by (simp add: TrimPrefix_Cons_single)
  have t3: "\<not> HasPrefix (Version releaseCtx) ''v'' \<longrightarrow>
      TrimPrefix (Version releaseCtx) ''v'' = Version releaseCtx"
    by (simp add: TrimPrefix_no_prefix)
  have t4: "TrimPrefix ''v1.0.0'' ''v'' = ''1.0.0''"
    using t2 [of "''1.0.0''"] by simp
  have c4: "Version releaseCtx = ''1.0.0'' \<longrightarrow>
      ''Published package v'' @ TrimPrefix (Version releaseCtx) ''v'' @ '' to Hex.pm''
      = ''Published package v1.0.0 to Hex.pm''"
    using t1 by simp
  have c6: "Version releaseCtx = ''v'' @ s \<longrightarrow> TrimPrefix (Version releaseCtx) ''v'' = s"
    using t2 [of s] by simp
  have c8: "Version releaseCtx = ''v1.0.0'' \<longrightarrow>
      ''Published package v'' @ TrimPrefix (Version releaseCtx) ''v'' @ '' to Hex.pm''
      = ''Published package v1.0.0 to Hex.pm''"
    using t4 by simp
  show ?thesis
    unfolding r using None c4 c6 t3 c8 by simp
next
  case (Some e)
  with assms have r: "publish executor cfg releaseCtx False =
      (\<lparr>Success = False, Message = [],
        Error = ''mix hex.publish failed: '' @ e @ [CHR 0x0A] @ ''Output: '' @ output,
        Outputs = Map.empty\<rparr>,
       [\<lparr>Name = ''mix'', Args = build_args cfg, Env = [''HEX_API_KEY='' @ APIKey cfg],
         Dir = WorkDir cfg\<rparr>])"
    by (simp add: publish_def Let_def)
  show ?thesis
    unfolding r using Some by simp
qed

theorem executor_outcome_witness:
  "validatePath (WorkDir \<lparr>APIKey = ''test-api-key'', Organization = [], Replace = False,
       Yes = True, WorkDir = ''.''\<rparr>) = None
   \<and> validateOrganization (Organization \<lparr>APIKey = ''test-api-key'', Organization = [],
       Replace = False, Yes = True, WorkDir = ''.''\<rparr>) = None
   \<and> APIKey \<lparr>APIKey = ''test-api-key'', Organization = [], Replace = False, Yes = True,
       WorkDir = ''.''\<rparr> \<noteq> []
   \<and> publish (\<lambda>name args env dir. (''Published v1.0.0'', None))
        \<lparr>APIKey = ''test-api-key'', Organization = [], Replace = False, Yes = True,
          WorkDir = ''.''\<rparr>
        \<lparr>Version = ''1.0.0'', TagName = ''v1.0.0'', Branch = ''main'', CommitSHA = ''abc123''\<rparr>
        False
      = (\<lparr>Success = True, Message = ''Published package v1.0.0 to Hex.pm'', Error = [],
          Outputs = [''version'' \<mapsto> AString ''1.0.0'', ''organization'' \<mapsto> AString [],
                     ''output'' \<mapsto> AString ''Published v1.0.0'']\<rparr>,
         [\<lparr>Name = ''mix'', Args = [''hex.publish'', ''--yes''],
           Env = [''HEX_API_KEY=test-api-key''], Dir = ''.''\<rparr>])
   \<and> publish (\<lambda>name args env dir. (''** (Mix) not authorized'', Some ''exit status 1''))
        \<lparr>APIKey = ''test-api-key'', Organization = [], Replace = False, Yes = True,
          WorkDir = ''.''\<rparr>
        \<lparr>Version = ''1.0.0'', TagName = ''v1.0.0'', Branch = ''main'', CommitSHA = ''abc123''\<rparr>
        False
      = (\<lparr>Success = False, Message = [],
          Error = ''mix hex.publish failed: exit status 1'' @ [CHR 0x0A]
            @ ''Output: ** (Mix) not authorized'',
          Outputs = Map.empty\<rparr>,
         [\<lparr>Name = ''mix'', Args = [''hex.publish'', ''--yes''],
           Env = [''HEX_API_KEY=test-api-key''], Dir = ''.''\<rparr>])
   \<and> publish (\<lambda>name args env dir. (''Published v2.3.4'', None))
        \<lparr>APIKey = ''test-api-key'', Organization = [], Replace = False, Yes = True,
          WorkDir = ''.''\<rparr>
        \<lparr>Version = ''v2.3.4'', TagName = ''v2.3.4'', Branch = ''main'', CommitSHA = ''abc123''\<rparr>
        False
      = (\<lparr>Success = True, Message = ''Published package v2.3.4 to Hex.pm'', Error = [],
          Outputs = [''version'' \<mapsto> AString ''2.3.4'', ''organization'' \<mapsto> AString [],
                     ''output'' \<mapsto> AString ''Published v2.3.4'']\<rparr>,
         [\<lparr>Name = ''mix'', Args = [''hex.publish'', ''--yes''],
           Env = [''HEX_API_KEY=test-api-key''], Dir = ''.''\<rparr>])
   \<and> Message (fst (publish (\<lambda>name args env dir. (''Published v1.0.0'', None))
        \<lparr>APIKey = ''test-api-key'', Organization = [], Replace = False, Yes = True,
          WorkDir = ''.''\<rparr>
        \<lparr>Version = ''v1.0.0'', TagName = ''v1.0.0'', Branch = ''main'', CommitSHA = ''abc123''\<rparr>
        False)) = ''Published package v1.0.0 to Hex.pm''"
proof -
  let ?cfg = "\<lparr>APIKey = ''test-api-key'', Organization = [], Replace = False, Yes = True,
    WorkDir = ''.''\<rparr>"
  let ?rc = "\<lparr>Version = ''1.0.0'', TagName = ''v1.0.0'', Branch = ''main'',
    CommitSHA = ''abc123''\<rparr>"
  let ?ok = "\<lambda>name args env dir. (''Published v1.0.0'', None :: string option)"
  let ?ko = "\<lambda>name args env dir. (''** (Mix) not authorized'', Some ''exit status 1'')"
  have p: "validatePath (WorkDir ?cfg) = None"
    by (simp add: validatePath_dot)
  have q: "validateOrganization (Organization ?cfg) = None"
    by (simp add: validateOrganization_empty)
  have k: "APIKey ?cfg \<noteq> []"
    by simp
  have a: "build_args ?cfg = [''hex.publish'', ''--yes'']"
    by (simp add: build_args_def)
  have x1: "?ok ''mix'' (build_args ?cfg) [''HEX_API_KEY='' @ APIKey ?cfg] (WorkDir ?cfg)
      = (''Published v1.0.0'', None)"
    by simp
  have x2: "?ko ''mix'' (build_args ?cfg) [''HEX_API_KEY='' @ APIKey ?cfg] (WorkDir ?cfg)
      = (''** (Mix) not authorized'', Some ''exit status 1'')"
    by simp
  have n1: "\<not> HasPrefix (Version ?rc) ''v''"
    by (simp add: HasPrefix_def)
  from executor_outcome [OF p q k x1, where releaseCtx = ?rc] n1
  have f1: "fst (publish ?ok ?cfg ?rc False) =
      \<lparr>Success = True, Message = ''Published package v'' @ Version ?rc @ '' to Hex.pm'', Error = [],
        Outputs = [''version'' \<mapsto> AString (Version ?rc),
                   ''organization'' \<mapsto> AString (Organization ?cfg),
                   ''output'' \<mapsto> AString ''Published v1.0.0'']\<rparr>"
    and s1: "snd (publish ?ok ?cfg ?rc False) =
      [\<lparr>Name = ''mix'', Args = build_args ?cfg, Env = [''HEX_API_KEY='' @ APIKey ?cfg],
        Dir = WorkDir ?cfg\<rparr>]"
    by blast+
  from f1 s1
  have r1: "publish ?ok ?cfg ?rc False =
      (\<lparr>Success = True, Message = ''Published package v1.0.0 to Hex.pm'', Error = [],
        Outputs = [''version'' \<mapsto> AString ''1.0.0'', ''organization'' \<mapsto> AString [],
                   ''output'' \<mapsto> AString ''Published v1.0.0'']\<rparr>,
       [\<lparr>Name = ''mix'', Args = [''hex.publish'', ''--yes''],
         Env = [''HEX_API_KEY=test-api-key''], Dir = ''.''\<rparr>])"
    by (simp add: a prod_eq_iff HasPrefix_def)
  from executor_outcome [OF p q k x2, of ?rc]
  have r2: "publish ?ko ?cfg ?rc False =
      (\<lparr>Success = False, Message = [],
        Error = ''mix hex.publish failed: exit status 1'' @ [CHR 0x0A]
          @ ''Output: ** (Mix) not authorized'',
        Outputs = Map.empty\<rparr>,
       [\<lparr>Name = ''mix'', Args = [''hex.publish'', ''--yes''],
         Env = [''HEX_API_KEY=test-api-key''], Dir = ''.''\<rparr>])"
    by (simp add: a prod_eq_iff)
  let ?rc3 = "\<lparr>Version = ''v2.3.4'', TagName = ''v2.3.4'', Branch = ''main'',
    CommitSHA = ''abc123''\<rparr>"
  let ?ok3 = "\<lambda>name args env dir. (''Published v2.3.4'', None :: string option)"
  have x3: "?ok3 ''mix'' (build_args ?cfg) [''HEX_API_KEY='' @ APIKey ?cfg] (WorkDir ?cfg)
      = (''Published v2.3.4'', None)"
    by simp
  have v3: "Version ?rc3 = ''v'' @ ''2.3.4''"
    by simp
  from executor_outcome [OF p q k x3, where releaseCtx = ?rc3 and s = "''2.3.4''"] v3
  have f3: "fst (publish ?ok3 ?cfg ?rc3 False) =
      \<lparr>Success = True, Message = ''Published package v'' @ ''2.3.4'' @ '' to Hex.pm'', Error = [],
        Outputs = [''version'' \<mapsto> AString ''2.3.4'',
                   ''organization'' \<mapsto> AString (Organization ?cfg),
                   ''output'' \<mapsto> AString ''Published v2.3.4'']\<rparr>"
    and s3: "snd (publish ?ok3 ?cfg ?rc3 False) =
      [\<lparr>Name = ''mix'', Args = build_args ?cfg, Env = [''HEX_API_KEY='' @ APIKey ?cfg],
        Dir = WorkDir ?cfg\<rparr>]"
    by blast+
  from f3 s3 have r3: "publish ?ok3 ?cfg ?rc3 False =
      (\<lparr>Success = True, Message = ''Published package v2.3.4 to Hex.pm'', Error = [],
        Outputs = [''version'' \<mapsto> AString ''2.3.4'', ''organization'' \<mapsto> AString [],
                   ''output'' \<mapsto> AString ''Published v2.3.4'']\<rparr>,
       [\<lparr>Name = ''mix'', Args = [''hex.publish'', ''--yes''],
         Env = [''HEX_API_KEY=test-api-key''], Dir = ''.''\<rparr>])"
    by (simp add: a prod_eq_iff)
  let ?rc4 = "\<lparr>Version = ''v1.0.0'', TagName = ''v1.0.0'', Branch = ''main'',
    CommitSHA = ''abc123''\<rparr>"
  have v4: "Version ?rc4 = ''v1.0.0''"
    by simp
  from executor_outcome [OF p q k x1, where releaseCtx = ?rc4] v4
  have r4: "Message (fst (publish ?ok ?cfg ?rc4 False)) = ''Published package v1.0.0 to Hex.pm''"
    by blast
  from p q k r1 r2 r3 r4 show ?thesis
    by blast
qed

section \<open>Hooks that are not handled\<close>

text \<open>
  Claim C9.  For every hook other than the post-publish hook, and for every raw
  configuration, environment, release context, dry-run flag and executor, \<open>Execute\<close>
  returns success = true with the message \<open>Hook <hook-name> not handled\<close>, no error
  and no outputs, and makes no call of the executor; nothing is validated, since the
  response is the same whatever the configuration holds.
\<close>

theorem unhandled_hook:
  assumes "Hook req \<noteq> HookPostPublish"
  shows "Execute HookPostPublish executor env req =
      (\<lparr>Success = True, Message = ''Hook '' @ Hook req @ '' not handled'', Error = [],
        Outputs = Map.empty\<rparr>, [])"
  using assms by (simp add: Execute_def Let_def)

theorem unhandled_hook_witness:
  "Hook \<lparr>Hook = ''pre-publish'',
          Config = [''organization'' \<mapsto> AString ''my org; rm -rf /'',
                    ''work_dir'' \<mapsto> AString ''/etc/passwd''],
          Context = \<lparr>Version = ''1.0.0'', TagName = ''v1.0.0'', Branch = ''main'',
            CommitSHA = ''abc123''\<rparr>,
          DryRun = False\<rparr> \<noteq> ''post-publish''
   \<and> Execute ''post-publish'' (\<lambda>name args env dir. (''mock output'', None)) Map.empty
        \<lparr>Hook = ''pre-publish'',
          Config = [''organization'' \<mapsto> AString ''my org; rm -rf /'',
                    ''work_dir'' \<mapsto> AString ''/etc/passwd''],
          Context = \<lparr>Version = ''1.0.0'', TagName = ''v1.0.0'', Branch = ''main'',
            CommitSHA = ''abc123''\<rparr>,
          DryRun = False\<rparr>
      = (\<lparr>Success = True, Message = ''Hook pre-publish not handled'', Error = [],
          Outputs = Map.empty\<rparr>, [])"
proof -
  let ?req = "\<lparr>Hook = ''pre-publish'',
          Config = [''organization'' \<mapsto> AString ''my org; rm -rf /'',
                    ''work_dir'' \<mapsto> AString ''/etc/passwd''],
          Context = \<lparr>Version = ''1.0.0'', TagName = ''v1.0.0'', Branch = ''main'',
            CommitSHA = ''abc123''\<rparr>,
          DryRun = False\<rparr>"
  have h: "Hook ?req \<noteq> ''post-publish''"
    by simp
  from unhandled_hook [OF h, of "\<lambda>name args env dir. (''mock output'', None)" Map.empty]
  show ?thesis
    using h by simp
qed

section \<open>Resolving the configuration\<close>

text \<open>
  Claim C5.  Each field of the configuration is resolved in the order: explicit value of
  the raw configuration, then the named environment variable (\<open>HEX_API_KEY\<close> for the
  credential, \<open>HEX_ORGANIZATION\<close> for the organization, none for the working directory),
  then the default.  The empty raw configuration with an empty environment gives
  credential and organization empty, replace false, auto-confirm true and working
  directory \<open>.\<close>; with \<open>api_key = config-key\<close> in the raw configuration and
  \<open>HEX_API_KEY = env-key\<close> in the environment the credential is \<open>config-key\<close>.
\<close>

theorem config_resolution:
  "(raw ''api_key'' = Some (AString v) \<longrightarrow> APIKey (parseConfig env raw) = v)
   \<and> ((\<forall>s. raw ''api_key'' \<noteq> Some (AString s)) \<and> env ''HEX_API_KEY'' = Some v \<longrightarrow>
        APIKey (parseConfig env raw) = v)
   \<and> ((\<forall>s. raw ''api_key'' \<noteq> Some (AString s)) \<and> env ''HEX_API_KEY'' = None \<longrightarrow>
        APIKey (parseConfig env raw) = [])
   \<and> (raw ''organization'' = Some (AString v) \<longrightarrow> Organization (parseConfig env raw) = v)
   \<and> ((\<forall>s. raw ''organization'' \<noteq> Some (AString s)) \<and> env ''HEX_ORGANIZATION'' = Some v \<longrightarrow>
        Organization (parseConfig env raw) = v)
   \<and> ((\<forall>s. raw ''organization'' \<noteq> Some (AString s)) \<and> env ''HEX_ORGANIZATION'' = None \<longrightarrow>
        Organization (parseConfig env raw) = [])
   \<and> (raw ''work_dir'' = Some (AString v) \<longrightarrow> WorkDir (parseConfig env raw) = v)
   \<and> ((\<forall>s. raw ''work_dir'' \<noteq> Some (AString s)) \<longrightarrow> WorkDir (parseConfig env raw) = ''.'')
   \<and> (raw ''replace'' = Some (ABool b) \<longrightarrow> Replace (parseConfig env raw) = b)
   \<and> (raw ''replace'' = None \<longrightarrow> Replace (parseConfig env raw) = False)
   \<and> (raw ''yes'' = Some (ABool b) \<longrightarrow> Yes (parseConfig env raw) = b)
   \<and> (raw ''yes'' = None \<longrightarrow> Yes (parseConfig env raw) = True)
   \<and> parseConfig Map.empty Map.empty =
        \<lparr>APIKey = [], Organization = [], Replace = False, Yes = True, WorkDir = ''.''\<rparr>
   \<and> APIKey (parseConfig [''HEX_API_KEY'' \<mapsto> ''env-key''] [''api_key'' \<mapsto> AString ''config-key''])
        = ''config-key''"
proof -
  have s: "(\<forall>s. x \<noteq> Some (AString s)) \<Longrightarrow>
      (case x of Some (AString v) \<Rightarrow> f v | _ \<Rightarrow> d) = d" for x :: "any option" and f :: "string \<Rightarrow> string" and d
    by (simp split: option.split any.split)
  show ?thesis
    by (simp add: parseConfig_def GetString_def GetBool_def s)
qed

theorem config_resolution_witness:
  "parseConfig [''HEX_API_KEY'' \<mapsto> ''env-key-123'']
        [''organization'' \<mapsto> AString ''my-org'', ''replace'' \<mapsto> ABool True]
      = \<lparr>APIKey = ''env-key-123'', Organization = ''my-org'', Replace = True, Yes = True,
          WorkDir = ''.''\<rparr>
   \<and> parseConfig [''HEX_API_KEY'' \<mapsto> ''env-key'', ''HEX_ORGANIZATION'' \<mapsto> ''env-org'']
        [''api_key'' \<mapsto> AString ''config-key'', ''work_dir'' \<mapsto> AString ''packages/lib'',
         ''yes'' \<mapsto> ABool False]
      = \<lparr>APIKey = ''config-key'', Organization = ''env-org'', Replace = False, Yes = False,
          WorkDir = ''packages/lib''\<rparr>
   \<and> APIKey (parseConfig Map.empty [''work_dir'' \<mapsto> AString ''lib'']) = []
   \<and> Organization (parseConfig Map.empty [''work_dir'' \<mapsto> AString ''lib'']) = []"
proof -
  let ?raw1 = "[''organization'' \<mapsto> AString ''my-org'', ''replace'' \<mapsto> ABool True]"
  let ?env1 = "[''HEX_API_KEY'' \<mapsto> ''env-key-123'']"
  let ?raw2 = "[''api_key'' \<mapsto> AString ''config-key'', ''work_dir'' \<mapsto> AString ''packages/lib'',
    ''yes'' \<mapsto> ABool False]"
  let ?env2 = "[''HEX_API_KEY'' \<mapsto> ''env-key'', ''HEX_ORGANIZATION'' \<mapsto> ''env-org'']"
  let ?raw3 = "[''work_dir'' \<mapsto> AString ''lib'']"
  let ?env3 = "Map.empty :: string \<rightharpoonup> string"
  have a1: "(\<forall>s. ?raw1 ''api_key'' \<noteq> Some (AString s)) \<and> ?env1 ''HEX_API_KEY'' = Some ''env-key-123''"
    and o1: "?raw1 ''organization'' = Some (AString ''my-org'')"
    and w1: "\<forall>s. ?raw1 ''work_dir'' \<noteq> Some (AString s)"
    and r1: "?raw1 ''replace'' = Some (ABool True)"
    and y1: "?raw1 ''yes'' = None"
    by simp_all
  have a2: "?raw2 ''api_key'' = Some (AString ''config-key'')"
    and o2: "(\<forall>s. ?raw2 ''organization'' \<noteq> Some (AString s))
        \<and> ?env2 ''HEX_ORGANIZATION'' = Some ''env-org''"
    and w2: "?raw2 ''work_dir'' = Some (AString ''packages/lib'')"
    and r2: "?raw2 ''replace'' = None"
    and y2: "?raw2 ''yes'' = Some (ABool False)"
    by simp_all
  have a3: "(\<forall>s. ?raw3 ''api_key'' \<noteq> Some (AString s)) \<and> ?env3 ''HEX_API_KEY'' = None"
    and o3: "(\<forall>s. ?raw3 ''organization'' \<noteq> Some (AString s)) \<and> ?env3 ''HEX_ORGANIZATION'' = None"
    by simp_all
  from config_resolution [of ?raw1 "''env-key-123''" ?env1 True] a1 w1 r1 y1
  have "APIKey (parseConfig ?env1 ?raw1) = ''env-key-123''"
    and "WorkDir (parseConfig ?env1 ?raw1) = ''.''"
    and "Replace (parseConfig ?env1 ?raw1) = True"
    and "Yes (parseConfig ?env1 ?raw1) = True"
    by blast+
  moreover from config_resolution [of ?raw1 "''my-org''" ?env1 True] o1
  have "Organization (parseConfig ?env1 ?raw1) = ''my-org''"
    by blast
  ultimately have c1: "parseConfig ?env1 ?raw1 =
      \<lparr>APIKey = ''env-key-123'', Organization = ''my-org'', Replace = True, Yes = True,
        WorkDir = ''.''\<rparr>"
    by (cases "parseConfig ?env1 ?raw1") simp
  from config_resolution [of ?raw2 "''config-key''" ?env2 False] a2 r2 y2
  have "APIKey (parseConfig ?env2 ?raw2) = ''config-key''"
    and "Replace (parseConfig ?env2 ?raw2) = False"
    and "Yes (parseConfig ?env2 ?raw2) = False"
    by blast+
  moreover from config_resolution [of ?raw2 "''env-org''" ?env2 False] o2
  have "Organization (parseConfig ?env2 ?raw2) = ''env-org''"
    by blast
  moreover from config_resolution [of ?raw2 "''packages/lib''" ?env2 False] w2
  have "WorkDir (parseConfig ?env2 ?raw2) = ''packages/lib''"
    by blast
  ultimately have c2: "parseConfig ?env2 ?raw2 =
      \<lparr>APIKey = ''config-key'', Organization = ''env-org'', Replace = False, Yes = False,
        WorkDir = ''packages/lib''\<rparr>"
    by (cases "parseConfig ?env2 ?raw2") simp
  from config_resolution [of ?raw3 "[]" ?env3 False] a3 o3
  have c3: "APIKey (parseConfig ?env3 ?raw3) = []" "Organization (parseConfig ?env3 ?raw3) = []"
    by blast+
  from c1 c2 c3 show ?thesis
    by blast
qed

section \<open>The dry run does not depend on the credential\<close>

lemma publish_dry_run_APIKey:
  "publish executor (cfg\<lparr>APIKey := k\<rparr>) releaseCtx True = publish executor cfg releaseCtx True"
  by (simp add: publish_def build_args_def Let_def split: option.split)

text \<open>
  Claim C10.  Two raw configurations that differ at most in the value of \<open>api_key\<close>,
  two environments that differ at most in the value of \<open>HEX_API_KEY\<close>: a dry-run
  \<open>Execute\<close> of the post-publish hook with the same release context returns the same
  response (and the same, empty, list of executor calls) for both.  In \<open>publish\<close>
  itself, replacing the credential of a configuration does not change the result of a
  dry run.
\<close>

theorem dry_run_credential_independent:
  assumes "\<forall>k. k \<noteq> ''api_key'' \<longrightarrow> raw1 k = raw2 k"
    and "\<forall>n. n \<noteq> ''HEX_API_KEY'' \<longrightarrow> env1 n = env2 n"
  shows "Execute HookPostPublish executor env1
        \<lparr>Hook = HookPostPublish, Config = raw1, Context = releaseCtx, DryRun = True\<rparr>
      = Execute HookPostPublish executor env2
        \<lparr>Hook = HookPostPublish, Config = raw2, Context = releaseCtx, DryRun = True\<rparr>
    \<and> publish executor (cfg\<lparr>APIKey := key\<rparr>) releaseCtx True
      = publish executor cfg releaseCtx True"
proof -
  from assms(1) have k: "raw1 ''organization'' = raw2 ''organization''"
    "raw1 ''work_dir'' = raw2 ''work_dir''" "raw1 ''replace'' = raw2 ''replace''"
    "raw1 ''yes'' = raw2 ''yes''"
    by simp_all
  from assms(2) have e: "env1 ''HEX_ORGANIZATION'' = env2 ''HEX_ORGANIZATION''"
    by simp
  have o: "GetString raw1 env1 ''organization'' ''HEX_ORGANIZATION'' []
      = GetString raw2 env2 ''organization'' ''HEX_ORGANIZATION'' []"
    unfolding GetString_def k e by simp
  have w: "GetString raw1 env1 ''work_dir'' [] ''.'' = GetString raw2 env2 ''work_dir'' [] ''.''"
    unfolding GetString_def k by simp
  have r: "GetBool raw1 ''replace'' False = GetBool raw2 ''replace'' False"
    unfolding GetBool_def k by simp
  have y: "GetBool raw1 ''yes'' True = GetBool raw2 ''yes'' True"
    unfolding GetBool_def k by simp
  have c: "parseConfig env1 raw1 =
      (parseConfig env2 raw2)\<lparr>APIKey := GetString raw1 env1 ''api_key'' ''HEX_API_KEY'' []\<rparr>"
    by (simp add: parseConfig_def o w r y)
  have "publish executor (parseConfig env1 raw1) releaseCtx True
      = publish executor (parseConfig env2 raw2) releaseCtx True"
    unfolding c by (rule publish_dry_run_APIKey)
  then show ?thesis
    by (simp add: Execute_def Let_def publish_dry_run_APIKey)
qed

theorem dry_run_credential_independent_witness:
  "APIKey (parseConfig [''HEX_API_KEY'' \<mapsto> ''key-two'']
      [''organization'' \<mapsto> AString ''my-org'', ''api_key'' \<mapsto> AString ''key-one''])
      = ''key-one''
   \<and> APIKey (parseConfig Map.empty [''organization'' \<mapsto> AString ''my-org'']) = []
   \<and> Execute ''post-publish'' (\<lambda>name args env dir. (''mock output'', None))
        [''HEX_API_KEY'' \<mapsto> ''key-two'']
        \<lparr>Hook = ''post-publish'',
          Config = [''organization'' \<mapsto> AString ''my-org'', ''api_key'' \<mapsto> AString ''key-one''],
          Context = \<lparr>Version = ''v2.0.0'', TagName = ''v2.0.0'', Branch = ''main'',
            CommitSHA = ''abc123''\<rparr>,
          DryRun = True\<rparr>
      = Execute ''post-publish'' (\<lambda>name args env dir. (''mock output'', None)) Map.empty
        \<lparr>Hook = ''post-publish'',
          Config = [''organization'' \<mapsto> AString ''my-org''],
          Context = \<lparr>Version = ''v2.0.0'', TagName = ''v2.0.0'', Branch = ''main'',
            CommitSHA = ''abc123''\<rparr>,
          DryRun = True\<rparr>"
proof -
  let ?raw1 = "[''organization'' \<mapsto> AString ''my-org'', ''api_key'' \<mapsto> AString ''key-one'']"
  let ?raw2 = "[''organization'' \<mapsto> AString ''my-org'']"
  let ?env1 = "[''HEX_API_KEY'' \<mapsto> ''key-two'']"
  let ?env2 = "Map.empty :: string \<rightharpoonup> string"
  have h1: "\<forall>k. k \<noteq> ''api_key'' \<longrightarrow> ?raw1 k = ?raw2 k"
    by simp
  have h2: "\<forall>n. n \<noteq> ''HEX_API_KEY'' \<longrightarrow> ?env1 n = ?env2 n"
    by simp
  have a1: "APIKey (parseConfig ?env1 ?raw1) = ''key-one''"
    by (simp add: parseConfig_def GetString_def)
  have a2: "APIKey (parseConfig ?env2 ?raw2) = []"
    by (simp add: parseConfig_def GetString_def)
  note dry_run_credential_independent [OF h1 h2,
      of "''post-publish''" "\<lambda>name args env dir. (''mock output'', None)"
        "\<lparr>Version = ''v2.0.0'', TagName = ''v2.0.0'', Branch = ''main'', CommitSHA = ''abc123''\<rparr>"]
  then have "Execute ''post-publish'' (\<lambda>name args env dir. (''mock output'', None)) ?env1
        \<lparr>Hook = ''post-publish'', Config = ?raw1,
          Context = \<lparr>Version = ''v2.0.0'', TagName = ''v2.0.0'', Branch = ''main'',
            CommitSHA = ''abc123''\<rparr>,
          DryRun = True\<rparr>
      = Execute ''post-publish'' (\<lambda>name args env dir. (''mock output'', None)) ?env2
        \<lparr>Hook = ''post-publish'', Config = ?raw2,
          Context = \<lparr>Version = ''v2.0.0'', TagName = ''v2.0.0'', Branch = ''main'',
            CommitSHA = ''abc123''\<rparr>,
          DryRun = True\<rparr>"
    by blast
  with a1 a2 show ?thesis
    by blast
qed

section \<open>The organization validator\<close>

lemma byte_less_256: "byte c < 256"
  by (simp add: byte_def)

lemma byte_mem_map: "byte c \<in> set (map byte s) \<longleftrightarrow> c \<in> set s"
proof -
  have "inj byte"
    unfolding byte_def [abs_def] by (rule inj_of_char)
  then show ?thesis
    by (simp add: inj_image_mem_iff)
qed

lemma bytes_upper: "map byte ''ABCDEFGHIJKLMNOPQRSTUVWXYZ'' = [65..<91]"
  by code_simp

lemma bytes_lower: "map byte ''abcdefghijklmnopqrstuvwxyz'' = [97..<123]"
  by code_simp

lemma bytes_digit: "map byte ''0123456789'' = [48..<58]"
  by code_simp

lemma bytes_other: "map byte ''_-'' = [95, 45]"
  by code_simp

lemma byte_literals:
  "byte CHR ''a'' = 97" "byte CHR ''z'' = 122" "byte CHR ''A'' = 65" "byte CHR ''Z'' = 90"
  "byte CHR ''0'' = 48" "byte CHR ''9'' = 57" "byte CHR ''-'' = 45" "byte CHR ''_'' = 95"
  by (simp_all add: byte_def)

lemma valid_rune_iff:
  "valid_rune r \<longleftrightarrow>
     97 \<le> r \<and> r \<le> 122 \<or> 65 \<le> r \<and> r \<le> 90 \<or> 48 \<le> r \<and> r \<le> 57 \<or> r = 45 \<or> r = 95"
  unfolding valid_rune_def Let_def byte_literals by blast

lemma valid_rune_ranges:
  "valid_rune r \<longleftrightarrow> r \<in> set ([65..<91] @ [97..<123] @ [48..<58] @ [95, 45])"
  unfolding valid_rune_iff by (simp add: Suc_le_eq) arith

lemma valid_rune_byte:
  "valid_rune (byte c) \<longleftrightarrow>
     c \<in> set (''ABCDEFGHIJKLMNOPQRSTUVWXYZ'' @ ''abcdefghijklmnopqrstuvwxyz'' @ ''0123456789'' @ ''_-'')"
proof -
  have "c \<in> set (''ABCDEFGHIJKLMNOPQRSTUVWXYZ'' @ ''abcdefghijklmnopqrstuvwxyz'' @ ''0123456789'' @ ''_-'')
      \<longleftrightarrow> byte c \<in> set (map byte (''ABCDEFGHIJKLMNOPQRSTUVWXYZ'' @ ''abcdefghijklmnopqrstuvwxyz''
          @ ''0123456789'' @ ''_-''))"
    by (simp only: byte_mem_map)
  also have "\<dots> \<longleftrightarrow> byte c \<in> set ([65..<91] @ [97..<123] @ [48..<58] @ [95, 45])"
    by (simp only: map_append bytes_upper bytes_lower bytes_digit bytes_other)
  also have "\<dots> \<longleftrightarrow> valid_rune (byte c)"
    by (simp only: valid_rune_ranges)
  finally show ?thesis
    by simp
qed

lemma valid_rune_ascii: "valid_rune r \<Longrightarrow> r < 128"
  unfolding valid_rune_iff by arith

lemma DecodeRuneInString_ascii:
  "byte c < 128 \<Longrightarrow> DecodeRuneInString (c # cs) = (byte c, 1)"
  by (simp add: DecodeRuneInString_def Let_def)

lemma mod_range:
  fixes n :: nat
  assumes "q * m \<le> n" and "n < q * m + m"
  shows "n mod m = n - q * m"
proof -
  from assms(1) have "n = (n - q * m) + q * m"
    by simp
  then have "n mod m = ((n - q * m) + q * m) mod m"
    by simp
  also have "\<dots> = (n - q * m) mod m"
    by (simp only: mod_mult_self1)
  also from assms have "\<dots> = n - q * m"
    by simp
  finally show ?thesis .
qed

lemma DecodeRuneInString_not_ascii:
  assumes "128 \<le> byte c"
  shows "128 \<le> fst (DecodeRuneInString (c # cs))"
proof -
  have m2: "194 \<le> n \<Longrightarrow> n \<le> 223 \<Longrightarrow> 2 \<le> n mod 32" for n :: nat
    using mod_range [of 6 32 n] by simp
  have m3: "225 \<le> n \<Longrightarrow> n \<le> 239 \<Longrightarrow> 1 \<le> n mod 16" for n :: nat
    using mod_range [of 14 16 n] by simp
  have m3': "160 \<le> n \<Longrightarrow> n \<le> 191 \<Longrightarrow> 32 \<le> n mod 64" for n :: nat
    using mod_range [of 2 64 n] by simp
  have m4: "241 \<le> n \<Longrightarrow> n \<le> 244 \<Longrightarrow> 1 \<le> n mod 8" for n :: nat
    using mod_range [of 30 8 n] by simp
  have m4': "144 \<le> n \<Longrightarrow> n \<le> 191 \<Longrightarrow> 16 \<le> n mod 64" for n :: nat
    using mod_range [of 2 64 n] by simp
  show ?thesis
  proof (cases "first (byte c)")
    case None
    with assms show ?thesis
      by (simp add: DecodeRuneInString_def Let_def RuneError_def)
  next
    case (Some t)
    obtain sz lo hi where t: "t = (sz, lo, hi)"
      by (cases t)
    from Some t have f: "first (byte c) = Some (sz, lo, hi)"
      by simp
    from f consider
        (two) "194 \<le> byte c" "byte c \<le> 223" "sz = 2"
      | (e0) "byte c = 224" "sz = 3" "lo = 160" "hi = 191"
      | (three) "225 \<le> byte c" "byte c \<le> 239" "sz = 3"
      | (f0) "byte c = 240" "sz = 4" "lo = 144" "hi = 191"
      | (four) "241 \<le> byte c" "byte c \<le> 244" "sz = 4"
      by (auto simp add: first_def split: if_splits)
    then show ?thesis
    proof cases
      case two
      from m2 [OF two(1,2)] have "128 \<le> byte c mod 32 * 64"
        by simp
      with assms f two show ?thesis
        by (simp add: DecodeRuneInString_def Let_def RuneError_def)
    next
      case e0
      have "128 \<le> byte (cs ! 0) mod 64 * 64"
        if "160 \<le> byte (cs ! 0)" "byte (cs ! 0) \<le> 191"
        using m3' [OF that] by simp
      with assms f e0 show ?thesis
        by (auto simp add: DecodeRuneInString_def Let_def RuneError_def not_less)
    next
      case three
      from m3 [OF three(1,2)] have "128 \<le> byte c mod 16 * 4096"
        by simp
      with assms f three show ?thesis
        by (auto simp add: DecodeRuneInString_def Let_def RuneError_def)
    next
      case f0
      have "128 \<le> byte (cs ! 0) mod 64 * 4096"
        if "144 \<le> byte (cs ! 0)" "byte (cs ! 0) \<le> 191"
        using m4' [OF that] by simp
      with assms f f0 show ?thesis
        by (auto simp add: DecodeRuneInString_def Let_def RuneError_def not_less)
    next
      case four
      from m4 [OF four(1,2)] have "128 \<le> byte c mod 8 * 262144"
        by simp
      with assms f four show ?thesis
        by (auto simp add: DecodeRuneInString_def Let_def RuneError_def)
    qed
  qed
qed

lemma check_runes_runes:
  "check_runes (runes s) = None \<longleftrightarrow> (\<forall>c\<in>set s. valid_rune (byte c))"
proof (induction s rule: runes.induct)
  case (1 s)
  show ?case
  proof (cases s)
    case Nil
    then show ?thesis
      by (simp add: runes.simps)
  next
    case (Cons c cs)
    show ?thesis
    proof (cases "byte c < 128")
      case True
      with Cons have d: "DecodeRuneInString s = (byte c, 1)"
        by (simp add: DecodeRuneInString_ascii)
      from Cons d have r: "runes s = byte c # runes cs"
        by (subst runes.simps) simp
      from "1.IH" Cons d have "check_runes (runes cs) = None \<longleftrightarrow> (\<forall>c\<in>set cs. valid_rune (byte c))"
        by simp
      with r Cons show ?thesis
        by simp
    next
      case False
      with Cons have "128 \<le> fst (DecodeRuneInString s)"
        by (simp add: DecodeRuneInString_not_ascii)
      then have n: "\<not> valid_rune (fst (DecodeRuneInString s))"
        using valid_rune_ascii by fastforce
      from Cons have "runes s = fst (DecodeRuneInString s) # runes (drop (snd (DecodeRuneInString s)) s)"
        by (subst runes.simps) simp
      with n have "check_runes (runes s) \<noteq> None"
        by simp
      moreover from False have "\<not> valid_rune (byte c)"
        using valid_rune_ascii by fastforce
      ultimately show ?thesis
        using Cons by auto
    qed
  qed
qed

lemma check_runes_error: "check_runes rs \<noteq> None \<Longrightarrow> check_runes rs = Some InvalidCharacters"
  by (induction rs) (auto split: if_splits)

text \<open>
  Claim C4.  \<open>validateOrganization\<close> succeeds for every string over the alphabet
  \<open>[A-Za-z0-9_-]\<close> of length at most 128, the empty string included.  It fails for
  every string longer than 128 (the name is too long) and for every string of length at
  most 128 that contains a character outside the alphabet (invalid characters); so it
  fails for every string that is too long or has a character outside the alphabet.
\<close>

theorem organization_validator:
  "(length org \<le> 128
      \<and> set org \<subseteq> set (''ABCDEFGHIJKLMNOPQRSTUVWXYZ'' @ ''abcdefghijklmnopqrstuvwxyz''
          @ ''0123456789'' @ ''_-'')
      \<longrightarrow> validateOrganization org = None)
   \<and> (128 < length org \<longrightarrow> validateOrganization org = Some NameTooLong)
   \<and> (length org \<le> 128
      \<and> \<not> set org \<subseteq> set (''ABCDEFGHIJKLMNOPQRSTUVWXYZ'' @ ''abcdefghijklmnopqrstuvwxyz''
          @ ''0123456789'' @ ''_-'')
      \<longrightarrow> validateOrganization org = Some InvalidCharacters)
   \<and> (128 < length org
      \<or> \<not> set org \<subseteq> set (''ABCDEFGHIJKLMNOPQRSTUVWXYZ'' @ ''abcdefghijklmnopqrstuvwxyz''
          @ ''0123456789'' @ ''_-'')
      \<longrightarrow> validateOrganization org \<noteq> None)
   \<and> validateOrganization [] = None"
proof -
  let ?A = "set (''ABCDEFGHIJKLMNOPQRSTUVWXYZ'' @ ''abcdefghijklmnopqrstuvwxyz''
          @ ''0123456789'' @ ''_-'')"
  have v: "check_runes (runes org) = None \<longleftrightarrow> set org \<subseteq> ?A"
    unfolding check_runes_runes valid_rune_byte by blast
  have a: "length org \<le> 128 \<and> set org \<subseteq> ?A \<longrightarrow> validateOrganization org = None"
    using v by (simp add: validateOrganization_def)
  have b: "128 < length org \<longrightarrow> validateOrganization org = Some NameTooLong"
    by (auto simp add: validateOrganization_def)
  have c: "length org \<le> 128 \<and> \<not> set org \<subseteq> ?A \<longrightarrow> validateOrganization org = Some InvalidCharacters"
  proof (intro impI, elim conjE)
    assume l: "length org \<le> 128" and n: "\<not> set org \<subseteq> ?A"
    from n have "org \<noteq> []"
      by auto
    moreover from n v have "check_runes (runes org) = Some InvalidCharacters"
      using check_runes_error by blast
    ultimately show "validateOrganization org = Some InvalidCharacters"
      using l by (simp add: validateOrganization_def)
  qed
  have d: "128 < length org \<or> \<not> set org \<subseteq> ?A \<longrightarrow> validateOrganization org \<noteq> None"
    using b c by (cases "128 < length org") auto
  have e: "validateOrganization [] = None"
    by (simp add: validateOrganization_def)
  from a b c d e show ?thesis
    by blast
qed

theorem organization_validator_witness:
  "validateOrganization ''My_Org-42'' = None
   \<and> validateOrganization (replicate 128 CHR ''a'') = None
   \<and> validateOrganization (replicate 129 CHR ''a'') = Some NameTooLong
   \<and> validateOrganization ''my org'' = Some InvalidCharacters
   \<and> validateOrganization [CHR ''c'', CHR ''a'', CHR ''f'', CHR 0xC3, CHR 0xA9] = Some InvalidCharacters"
proof -
  let ?A = "set (''ABCDEFGHIJKLMNOPQRSTUVWXYZ'' @ ''abcdefghijklmnopqrstuvwxyz''
          @ ''0123456789'' @ ''_-'')"
  have h1: "length ''My_Org-42'' \<le> 128 \<and> set ''My_Org-42'' \<subseteq> ?A"
    by simp
  have h2: "length (replicate 128 CHR ''a'') \<le> 128 \<and> set (replicate 128 CHR ''a'') \<subseteq> ?A"
    by simp
  have h3: "128 < length (replicate 129 CHR ''a'')"
    by simp
  have h4: "length ''my org'' \<le> 128 \<and> \<not> set ''my org'' \<subseteq> ?A"
    by simp
  have h5: "length [CHR ''c'', CHR ''a'', CHR ''f'', CHR 0xC3, CHR 0xA9] \<le> 128
      \<and> \<not> set [CHR ''c'', CHR ''a'', CHR ''f'', CHR 0xC3, CHR 0xA9] \<subseteq> ?A"
    by simp
  from organization_validator [of "''My_Org-42''"] h1
  have r1: "validateOrganization ''My_Org-42'' = None"
    by blast
  from organization_validator [of "replicate 128 CHR ''a''"] h2
  have r2: "validateOrganization (replicate 128 CHR ''a'') = None"
    by blast
  from organization_validator [of "replicate 129 CHR ''a''"] h3
  have r3: "validateOrganization (replicate 129 CHR ''a'') = Some NameTooLong"
    by blast
  from organization_validator [of "''my org''"] h4
  have r4: "validateOrganization ''my org'' = Some InvalidCharacters"
    by blast
  from organization_validator [of "[CHR ''c'', CHR ''a'', CHR ''f'', CHR 0xC3, CHR 0xA9]"] h5
  have r5: "validateOrganization [CHR ''c'', CHR ''a'', CHR ''f'', CHR 0xC3, CHR 0xA9]
      = Some InvalidCharacters"
    by blast
  from r1 r2 r3 r4 r5 show ?thesis
    by blast
qed

section \<open>The working-directory validator\<close>

subsection \<open>Backtracking in the buffer\<close>

lemma backtrack_stop:
  assumes "\<forall>i. lo < i \<and> i \<le> w \<longrightarrow> \<not> IsPathSeparator (buf ! i)"
    and "dotdot \<le> lo" and "lo \<le> w"
    and "IsPathSeparator (buf ! lo) \<or> lo = dotdot"
  shows "backtrack buf dotdot w = lo"
  using assms
proof (induction "w - lo" arbitrary: w)
  case 0
  then have "w = lo"
    by simp
  with 0 show ?case
    by (subst backtrack.simps) auto
next
  case (Suc n)
  then have w: "lo < w" "dotdot < w" "\<not> IsPathSeparator (buf ! w)"
    by auto
  from Suc have "backtrack buf dotdot (w - 1) = lo"
    by (intro Suc.hyps) auto
  with w show ?case
    by (subst backtrack.simps) simp
qed

lemma backtrack_ge: "dotdot \<le> w \<Longrightarrow> dotdot \<le> backtrack buf dotdot w"
proof (induction buf dotdot w rule: backtrack.induct)
  case (1 buf dotdot w)
  then show ?case
    by (subst backtrack.simps) auto
qed

subsection \<open>A rooted path stays rooted\<close>

lemma clean_loop_rooted:
  assumes "out \<noteq> []" and "hd out = Separator" and "1 \<le> dotdot"
  shows "clean_loop True rest out dotdot \<noteq> [] \<and> hd (clean_loop True rest out dotdot) = Separator"
  using assms
proof (induction rest arbitrary: out dotdot rule: length_induct)
  case (1 rest)
  let ?P = "\<lambda>r o'. clean_loop True r o' dotdot \<noteq> [] \<and> hd (clean_loop True r o' dotdot) = Separator"
  show ?case
  proof (cases rest)
    case Nil
    with 1 show ?thesis
      by (simp add: clean_loop.simps)
  next
    case (Cons c cs)
    have step: "clean_loop True r o' dotdot \<noteq> [] \<and> hd (clean_loop True r o' dotdot) = Separator"
      if "length r \<le> length cs" "o' \<noteq> []" "hd o' = Separator" for r o'
      using 1 that Cons by (simp add: less_Suc_eq_le)
    have b: "take (backtrack out dotdot (length out - 1)) out \<noteq> []
        \<and> hd (take (backtrack out dotdot (length out - 1)) out) = Separator"
      if "dotdot < length out"
    proof -
      from that have "dotdot \<le> backtrack out dotdot (length out - 1)"
        by (intro backtrack_ge) simp
      with \<open>1 \<le> dotdot\<close> have "0 < backtrack out dotdot (length out - 1)"
        by simp
      with \<open>out \<noteq> []\<close> \<open>hd out = Separator\<close> show ?thesis
        by (cases out) (auto simp add: take_Cons')
    qed
    have a: "(out @ xs) \<noteq> [] \<and> hd (out @ xs) = Separator" for xs
      using \<open>out \<noteq> []\<close> \<open>hd out = Separator\<close> by simp
    let ?t = "dropWhile (\<lambda>x. \<not> IsPathSeparator x) cs"
    let ?n = "c # takeWhile (\<lambda>x. \<not> IsPathSeparator x) cs"
    have r1: "?P cs out" and r2: "?P (tl cs) out"
      and r3: "dotdot < length out \<Longrightarrow> ?P (tl cs) (take (backtrack out dotdot (length out - 1)) out)"
      and r4: "?P ?t (out @ [Separator] @ ?n)" and r5: "?P ?t (out @ ?n)"
      using step [of cs out] step [of "tl cs" out]
        step [of "tl cs" "take (backtrack out dotdot (length out - 1)) out"]
        step [of ?t "out @ [Separator] @ ?n"] step [of ?t "out @ ?n"]
        b a \<open>out \<noteq> []\<close> \<open>hd out = Separator\<close> length_dropWhile_le [of "\<lambda>x. \<not> IsPathSeparator x" cs]
      by simp_all
    have "?P (c # cs) out"
      using r1 r2 r3 r4 r5 by (simp add: clean_loop.simps)
    with Cons show ?thesis
      by simp
  qed
qed
subsection \<open>Joining names\<close>

lemma Join_Cons: "Join (x # xs) sep = x @ (if xs = [] then [] else sep @ Join xs sep)"
  by (cases xs) simp_all

lemma Join_snoc: "Join (xs @ [x]) sep = (if xs = [] then x else Join xs sep @ sep @ x)"
  by (induction xs sep rule: Join.induct) simp_all

lemma Join_eq_Nil: "\<forall>x\<in>set xs. x \<noteq> [] \<Longrightarrow> Join xs sep = [] \<longleftrightarrow> xs = []"
  by (cases xs) (simp_all add: Join_Cons)

lemma render_snoc:
  "render k (ns @ [n]) = (if k = 0 \<and> ns = [] then n else render k ns @ [Separator] @ n)"
  unfolding render_def append_assoc [symmetric] Join_snoc by simp

lemma render_Suc:
  "render (Suc k) [] = (if k = 0 then ''..'' else render k [] @ [Separator] @ ''..'')"
  unfolding render_def append_Nil2 replicate_Suc [of k] replicate_append_same [symmetric] Join_snoc
  by simp

lemma render_eq_Nil:
  assumes "\<forall>n\<in>set ns. n \<noteq> []"
  shows "render k ns = [] \<longleftrightarrow> k = 0 \<and> ns = []"
proof -
  from assms have "\<forall>x\<in>set (replicate k ''..'' @ ns). x \<noteq> []"
    by auto
  then show ?thesis
    unfolding render_def by (simp add: Join_eq_Nil)
qed

lemma render_length:
  assumes "\<forall>n\<in>set ns. n \<noteq> []"
  shows "length (render k []) \<le> length (render k ns) \<and> (ns \<noteq> [] \<longrightarrow> length (render k []) < length (render k ns))"
  using assms
proof (induction ns rule: rev_induct)
  case Nil
  show ?case
    by simp
next
  case (snoc n ns)
  then have "length (render k []) \<le> length (render k ns)" and "n \<noteq> []"
    by simp_all
  moreover have "k = 0 \<and> ns = [] \<Longrightarrow> render k [] = []"
    by (simp add: render_def)
  ultimately show ?case
    by (auto simp add: render_snoc)
qed

subsection \<open>A \<open>..\<close> element removes the last name\<close>

lemma backtrack_render:
  assumes "\<forall>x\<in>set (ns @ [n]). x \<noteq> [] \<and> Separator \<notin> set x"
  shows "take (backtrack (render k (ns @ [n])) (length (render k [])) (length (render k (ns @ [n])) - 1))
      (render k (ns @ [n])) = render k ns"
proof (cases "k = 0 \<and> ns = []")
  case True
  from assms have "n \<noteq> []" and "Separator \<notin> set n"
    by simp_all
  then have "\<forall>i. 0 < i \<and> i \<le> length n - 1 \<longrightarrow> n ! i \<in> set n"
    by (cases n) auto
  with \<open>Separator \<notin> set n\<close>
  have "\<forall>i. 0 < i \<and> i \<le> length n - 1 \<longrightarrow> \<not> IsPathSeparator (n ! i)"
    unfolding IsPathSeparator_def by metis
  then have "backtrack n 0 (length n - 1) = 0"
    by (intro backtrack_stop) simp_all
  with True show ?thesis
    by (simp add: render_snoc) (simp add: render_def)
next
  case False
  let ?pre = "render k ns"
  from False have r: "render k (ns @ [n]) = ?pre @ Separator # n"
    by (simp add: render_snoc)
  from assms have n: "n \<noteq> []" "Separator \<notin> set n"
    by simp_all
  have "\<forall>i. length ?pre < i \<and> i \<le> length ?pre + length n \<longrightarrow>
      \<not> IsPathSeparator ((?pre @ Separator # n) ! i)"
  proof (intro allI impI)
    fix i
    assume i: "length ?pre < i \<and> i \<le> length ?pre + length n"
    then have e: "(?pre @ Separator # n) ! i = n ! (i - length ?pre - 1)"
      by (auto simp add: nth_append nth_Cons')
    from i have "i - length ?pre - 1 < length n"
      by auto
    then have "n ! (i - length ?pre - 1) \<in> set n"
      by (rule nth_mem)
    with n(2) have "n ! (i - length ?pre - 1) \<noteq> Separator"
      by metis
    then show "\<not> IsPathSeparator ((?pre @ Separator # n) ! i)"
      unfolding e IsPathSeparator_def .
  qed
  moreover from assms have "length (render k []) \<le> length ?pre"
    using render_length [of ns k] by simp
  moreover have "IsPathSeparator ((?pre @ Separator # n) ! length ?pre)"
    by (simp add: IsPathSeparator_def)
  ultimately have "backtrack (?pre @ Separator # n) (length (render k [])) (length ?pre + length n)
      = length ?pre"
    by (intro backtrack_stop) simp_all
  then show ?thesis
    unfolding r by simp
qed

subsection \<open>Components of a path\<close>

lemma segments_not_Nil: "segments s \<noteq> []"
  by (cases s) (simp_all split: list.split)

lemma segments_separator [simp]:
  "IsPathSeparator c \<Longrightarrow> segments (c # cs) = [] # segments cs"
  by simp

lemma segments_other [simp]:
  "\<not> IsPathSeparator c \<Longrightarrow> segments (c # cs) = (c # hd (segments cs)) # tl (segments cs)"
  using segments_not_Nil [of cs] by (cases "segments cs") simp_all

declare segments.simps(2) [simp del]

lemma segments_boundary:
  "t = [] \<or> IsPathSeparator (hd t) \<Longrightarrow> segments t = [] # tl (segments t)"
  by (cases t) auto

lemma segments_name:
  assumes "Separator \<notin> set x" and "t = [] \<or> IsPathSeparator (hd t)"
  shows "segments (x @ t) = x # tl (segments t)"
  using assms(1)
proof (induction x)
  case Nil
  from segments_boundary [OF assms(2)] show ?case
    by simp
next
  case (Cons c x)
  then show ?case
    by (auto simp add: IsPathSeparator_def)
qed

lemma walk_boundary:
  "t = [] \<or> IsPathSeparator (hd t) \<Longrightarrow> walk k ns (tl (segments t)) = walk k ns (segments t)"
  by (subst (2) segments_boundary) simp_all

lemma segments_no_separator: "s \<in> set (segments p) \<Longrightarrow> Separator \<notin> set s"
proof (induction p arbitrary: s)
  case Nil
  then show ?case
    by simp
next
  case (Cons c p)
  show ?case
  proof (cases "IsPathSeparator c")
    case True
    with Cons show ?thesis
      by auto
  next
    case False
    with Cons.prems have "s = c # hd (segments p) \<or> s \<in> set (tl (segments p))"
      by simp
    moreover have "hd (segments p) \<in> set (segments p)"
      by (simp add: segments_not_Nil)
    moreover have "set (tl (segments p)) \<subseteq> set (segments p)"
      by (cases "segments p") auto
    ultimately show ?thesis
      using Cons.IH False by (auto simp add: IsPathSeparator_def)
  qed
qed
subsection \<open>The loop of \<open>Clean\<close> on a path that is not rooted\<close>

lemma walk_name:
  "s \<noteq> [] \<Longrightarrow> s \<noteq> ''.'' \<Longrightarrow> s \<noteq> ''..'' \<Longrightarrow> walk k ns (s # ss) = walk k (ns @ [s]) ss"
  by simp

lemma clean_loop_walk:
  assumes "\<forall>n\<in>set ns. n \<noteq> [] \<and> Separator \<notin> set n"
  shows "clean_loop False rest (render k ns) (length (render k []))
      = (case walk k ns (segments rest) of (k', ns') \<Rightarrow> render k' ns')"
  using assms
proof (induction rest arbitrary: k ns rule: length_induct)
  case (1 rest)
  let ?R = "\<lambda>r k ns. clean_loop False r (render k ns) (length (render k []))
      = (case walk k ns (segments r) of (k', ns') \<Rightarrow> render k' ns')"
  note valid = \<open>\<forall>n\<in>set ns. n \<noteq> [] \<and> Separator \<notin> set n\<close>
  show ?case
  proof (cases rest)
    case Nil
    then show ?thesis
      by (simp add: clean_loop.simps)
  next
    case (Cons c cs)
    have IH: "?R r k' ns'"
      if "length r \<le> length cs" "\<forall>n\<in>set ns'. n \<noteq> [] \<and> Separator \<notin> set n" for r k' ns'
      using "1.IH" that Cons by (simp add: less_Suc_eq_le)
    have dot_sep: "CHR ''.'' \<noteq> Separator"
      by (simp add: Separator_def)
    consider (sep) "IsPathSeparator c"
      | (dot) "\<not> IsPathSeparator c" "c = CHR ''.''" "cs = [] \<or> IsPathSeparator (hd cs)"
      | (dotdot) "\<not> IsPathSeparator c" "c = CHR ''.''" "\<not> (cs = [] \<or> IsPathSeparator (hd cs))"
          "hd cs = CHR ''.''" "tl cs = [] \<or> IsPathSeparator (hd (tl cs))"
      | (name) "\<not> IsPathSeparator c" "\<not> (c = CHR ''.'' \<and> (cs = [] \<or> IsPathSeparator (hd cs)))"
          "\<not> (c = CHR ''.'' \<and> hd cs = CHR ''.'' \<and> (tl cs = [] \<or> IsPathSeparator (hd (tl cs))))"
      by blast
    then have "?R (c # cs) k ns"
    proof cases
      case sep
      then have "clean_loop False (c # cs) (render k ns) (length (render k []))
          = clean_loop False cs (render k ns) (length (render k []))"
        by (simp add: clean_loop.simps)
      moreover from sep have "walk k ns (segments (c # cs)) = walk k ns (segments cs)"
        by simp
      ultimately show ?thesis
        using IH [where r = cs and k' = k and ns' = ns] valid by simp
    next
      case dot
      then have "clean_loop False (c # cs) (render k ns) (length (render k []))
          = clean_loop False cs (render k ns) (length (render k []))"
        by (simp add: clean_loop.simps)
      moreover from dot dot_sep have "segments (c # cs) = ''.'' # tl (segments cs)"
        using segments_name [of "''.''" cs] by simp
      then have "walk k ns (segments (c # cs)) = walk k ns (segments cs)"
        using walk_boundary [OF dot(3)] by simp
      ultimately show ?thesis
        using IH [where r = cs and k' = k and ns' = ns] valid by simp
    next
      case dotdot
      then obtain cs2 where cs: "cs = CHR ''.'' # cs2" and b: "cs2 = [] \<or> IsPathSeparator (hd cs2)"
        by (cases cs) auto
      from dotdot cs b dot_sep have "segments (c # cs) = ''..'' # tl (segments cs2)"
        using segments_name [of "''..''" cs2] by simp
      then have w: "walk k ns (segments (c # cs))
          = (if ns \<noteq> [] then walk k (butlast ns) (segments cs2) else walk (Suc k) [] (segments cs2))"
        using walk_boundary [OF b] by simp
      show ?thesis
      proof (cases "ns = []")
        case True
        have o: "(if 0 < length (render k []) then render k [] @ [Separator] else render k []) @ ''..''
            = render (Suc k) []"
          using render_eq_Nil [of "[]" k] by (auto simp add: render_Suc)
        from True dotdot cs b have "clean_loop False (c # cs) (render k ns) (length (render k []))
            = clean_loop False cs2
                ((if 0 < length (render k []) then render k [] @ [Separator] else render k []) @ ''..'')
                (length ((if 0 < length (render k []) then render k [] @ [Separator]
                  else render k []) @ ''..''))"
          by (simp add: clean_loop.simps)
        also have "\<dots> = clean_loop False cs2 (render (Suc k) []) (length (render (Suc k) []))"
          unfolding o ..
        also have "\<dots> = (case walk (Suc k) [] (segments cs2) of (k', ns') \<Rightarrow> render k' ns')"
          using IH [where r = cs2 and k' = "Suc k" and ns' = "[]"] cs by simp
        finally show ?thesis
          using True w by simp
      next
        case False
        then obtain ns' n where ns: "ns = ns' @ [n]"
          by (cases ns rule: rev_cases) auto
        from False valid have "length (render k []) < length (render k ns)"
          using render_length [of ns k] by simp
        with dotdot cs b have "clean_loop False (c # cs) (render k ns) (length (render k []))
            = clean_loop False cs2
                (take (backtrack (render k ns) (length (render k [])) (length (render k ns) - 1))
                  (render k ns))
                (length (render k []))"
          by (simp add: clean_loop.simps)
        also have "\<dots> = clean_loop False cs2 (render k ns') (length (render k []))"
          using backtrack_render [of ns' n k] valid unfolding ns by simp
        also have "\<dots> = (case walk k ns' (segments cs2) of (k', ns') \<Rightarrow> render k' ns')"
          using IH [where r = cs2 and k' = k and ns' = ns'] cs valid ns by simp
        finally show ?thesis
          using False w ns by simp
      qed
    next
      case name
      let ?n = "c # takeWhile (\<lambda>x. \<not> IsPathSeparator x) cs"
      let ?t = "dropWhile (\<lambda>x. \<not> IsPathSeparator x) cs"
      have t: "?t = [] \<or> IsPathSeparator (hd ?t)"
        using hd_dropWhile [of "\<lambda>x. \<not> IsPathSeparator x" cs] by auto
      have nosep: "Separator \<notin> set ?n"
        using name(1) by (auto simp add: IsPathSeparator_def dest: set_takeWhileD)
      have n1: "?n \<noteq> ''.''"
        using name(2) by (auto simp add: takeWhile_eq_Nil_iff)
      have n2: "?n \<noteq> ''..''"
      proof
        assume e: "?n = ''..''"
        then have c: "c = CHR ''.''" and tw: "takeWhile (\<lambda>x. \<not> IsPathSeparator x) cs = ''.''"
          by simp_all
        from tw obtain cs2 where cs: "cs = CHR ''.'' # cs2"
          by (cases cs) (auto split: if_splits)
        with tw have "takeWhile (\<lambda>x. \<not> IsPathSeparator x) cs2 = []"
          by (simp split: if_splits)
        then have "cs2 = [] \<or> IsPathSeparator (hd cs2)"
          by (auto simp add: takeWhile_eq_Nil_iff)
        with c cs name(3) show False
          by simp
      qed
      have "segments (?n @ ?t) = ?n # tl (segments ?t)"
        using nosep t by (rule segments_name)
      then have s: "segments (c # cs) = ?n # tl (segments ?t)"
        by simp
      have "walk k ns (?n # tl (segments ?t)) = walk k (ns @ [?n]) (tl (segments ?t))"
        by (rule walk_name [OF _ n1 n2]) simp
      then have w: "walk k ns (segments (c # cs)) = walk k (ns @ [?n]) (segments ?t)"
        unfolding s walk_boundary [OF t] .
      have o: "(if \<not> False \<and> length (render k ns) \<noteq> 0 then render k ns @ [Separator] else render k ns) @ ?n
          = render k (ns @ [?n])"
        using render_eq_Nil [of ns k] valid by (auto simp add: render_snoc)
      from name have "clean_loop False (c # cs) (render k ns) (length (render k []))
          = clean_loop False ?t
              ((if \<not> False \<and> length (render k ns) \<noteq> 0 then render k ns @ [Separator]
                else render k ns) @ ?n)
              (length (render k []))"
        by (subst clean_loop.simps) auto
      also have "\<dots> = clean_loop False ?t (render k (ns @ [?n])) (length (render k []))"
        unfolding o ..
      also have "\<dots> = (case walk k (ns @ [?n]) (segments ?t) of (k', ns') \<Rightarrow> render k' ns')"
        using IH [where r = ?t and k' = k and ns' = "ns @ [?n]"] valid nosep
          length_dropWhile_le [of "\<lambda>x. \<not> IsPathSeparator x" cs]
        by simp
      finally show ?thesis
        using w by simp
    qed
    with Cons show ?thesis
      by simp
  qed
qed
subsection \<open>What the walk over the components yields\<close>

lemma walk_fst_mono: "k \<le> fst (walk k ns ss)"
proof (induction ss arbitrary: k ns)
  case Nil
  show ?case
    by simp
next
  case (Cons s ss)
  from Cons [of "Suc k" "[]"] have "k \<le> fst (walk (Suc k) [] ss)"
    by simp
  with Cons show ?case
    by simp
qed

lemma walk_climbs: "k < fst (walk k ns ss) \<longleftrightarrow> climbs (length ns) ss"
proof (induction ss arbitrary: k ns)
  case Nil
  show ?case
    by simp
next
  case (Cons s ss)
  have "k < fst (walk (Suc k) [] ss)"
    using walk_fst_mono [of "Suc k" "[]" ss] by simp
  moreover have "climbs (length (butlast ns)) ss = climbs (length ns - 1) ss"
    by simp
  ultimately show ?case
    using Cons [of k ns] Cons [of k "butlast ns"] Cons [of k "ns @ [s]"] by simp
qed

lemma walk_names:
  "n \<in> set (snd (walk k ns ss)) \<Longrightarrow>
     n \<in> set ns \<or> (n \<in> set ss \<and> n \<noteq> [] \<and> n \<noteq> ''.'' \<and> n \<noteq> ''..'')"
proof (induction ss arbitrary: k ns)
  case Nil
  then show ?case
    by simp
next
  case (Cons s ss)
  show ?case
  proof (cases "s = [] \<or> s = ''.''")
    case True
    with Cons.prems Cons.IH [of k ns] show ?thesis
      by auto
  next
    case False
    show ?thesis
    proof (cases "s = ''..''")
      case True
      with Cons.prems Cons.IH [of k "butlast ns"] Cons.IH [of "Suc k" "[]"] show ?thesis
        by (auto split: if_splits dest: in_set_butlastD)
    next
      case n: False
      with False Cons.prems Cons.IH [of k "ns @ [s]"] show ?thesis
        by auto
    qed
  qed
qed

subsection \<open>Names that do not begin with two dots\<close>

lemma Contains_sep_dotdot:
  "Contains (c # s) (Separator # ''..'')
     \<longleftrightarrow> c = Separator \<and> HasPrefix s ''..'' \<or> Contains s (Separator # ''..'')"
  by (auto simp add: HasPrefix_def)

lemma Contains_name_append:
  "Separator \<notin> set n \<Longrightarrow> Contains (n @ t) (Separator # ''..'') = Contains t (Separator # ''..'')"
proof (induction n)
  case Nil
  show ?case
    by simp
next
  case (Cons c n)
  then show ?case
    unfolding append_Cons Contains_sep_dotdot by auto
qed

lemma HasPrefix_name_append:
  assumes "n \<noteq> []" and "\<not> HasPrefix n ''..''" and "t = [] \<or> hd t = Separator"
  shows "\<not> HasPrefix (n @ t) ''..''"
proof (cases n)
  case Nil
  with assms(1) show ?thesis
    by simp
next
  case (Cons a m)
  show ?thesis
  proof (cases m)
    case Nil
    with Cons assms(3) show ?thesis
      by (cases t) (auto simp add: HasPrefix_def Separator_def)
  next
    case c2: (Cons b m')
    with Cons assms(2) show ?thesis
      by (simp add: HasPrefix_def)
  qed
qed

lemma Join_no_dotdot:
  assumes "\<forall>n\<in>set ns. n \<noteq> [] \<and> Separator \<notin> set n \<and> \<not> HasPrefix n ''..''"
  shows "\<not> HasPrefix (Join ns [Separator]) ''..''
    \<and> \<not> Contains (Join ns [Separator]) (Separator # ''..'')
    \<and> \<not> IsAbs (Join ns [Separator])"
  using assms
proof (induction ns)
  case Nil
  show ?case
    by (simp add: HasPrefix_def IsAbs_def)
next
  case (Cons n ns)
  let ?t = "if ns = [] then [] else [Separator] @ Join ns [Separator]"
  from Cons.prems have n: "n \<noteq> []" "Separator \<notin> set n" "\<not> HasPrefix n ''..''"
    by simp_all
  from Cons have IH: "\<not> HasPrefix (Join ns [Separator]) ''..''"
      "\<not> Contains (Join ns [Separator]) (Separator # ''..'')"
    by simp_all
  have j: "Join (n # ns) [Separator] = n @ ?t"
    by (simp only: Join_Cons)
  have t: "?t = [] \<or> hd ?t = Separator"
    by simp
  have a: "\<not> HasPrefix (n @ ?t) ''..''"
    using n(1) n(3) t by (rule HasPrefix_name_append)
  have "\<not> Contains ?t (Separator # ''..'')"
    using IH by (simp add: HasPrefix_def)
  then have b: "\<not> Contains (n @ ?t) (Separator # ''..'')"
    using Contains_name_append [OF n(2)] by simp
  from n(1) n(2) have c: "\<not> IsAbs (n @ ?t)"
    by (cases n) (auto simp add: IsAbs_def HasPrefix_def Separator_def)
  from a b c show ?case
    unfolding j by simp
qed

subsection \<open>\<open>Clean\<close> on rooted and on relative paths\<close>

lemma IsAbs_iff: "IsAbs p \<longleftrightarrow> p \<noteq> [] \<and> IsPathSeparator (hd p)"
  by (cases p) (auto simp add: IsAbs_def HasPrefix_def IsPathSeparator_def Separator_def)

lemma Clean_rooted: "IsAbs p \<Longrightarrow> IsAbs (Clean p)"
proof -
  assume "IsAbs p"
  then obtain c cs where p: "p = c # cs" and c: "IsPathSeparator c"
    unfolding IsAbs_iff by (cases p) auto
  have "clean_loop True cs [Separator] 1 \<noteq> [] \<and> hd (clean_loop True cs [Separator] 1) = Separator"
    by (rule clean_loop_rooted) simp_all
  with p c show "IsAbs (Clean p)"
    by (simp add: Clean_def IsAbs_iff IsPathSeparator_def)
qed

lemma Clean_relative:
  assumes "p \<noteq> []" and "\<not> IsAbs p"
  shows "Clean p = (case walk 0 [] (segments p) of
      (k, ns) \<Rightarrow> if render k ns = [] then ''.'' else render k ns)"
proof -
  have r: "render 0 [] = []"
    by (simp add: render_def)
  have "clean_loop False p (render 0 []) (length (render 0 []))
      = (case walk 0 [] (segments p) of (k, ns) \<Rightarrow> render k ns)"
    by (rule clean_loop_walk) simp
  then have "clean_loop False p [] 0 = (case walk 0 [] (segments p) of (k, ns) \<Rightarrow> render k ns)"
    unfolding r by simp
  with assms show ?thesis
    by (simp add: Clean_def IsAbs_iff split: prod.split)
qed

lemma render_dotdot: "HasPrefix (render (Suc k) ns) ''..'' \<and> \<not> IsAbs (render (Suc k) ns)"
  by (simp add: render_def Join_Cons HasPrefix_def IsAbs_def)

lemma validatePath_absolute: "IsAbs p \<Longrightarrow> validatePath p = Some AbsolutePath"
  using Clean_rooted [of p] by (auto simp add: validatePath_def Let_def IsAbs_iff)

lemma validatePath_climbs:
  assumes "\<not> IsAbs p" and "climbs 0 (segments p)"
  shows "validatePath p = Some PathTraversal"
proof -
  from assms(2) have p: "p \<noteq> []"
    by (cases p) auto
  obtain k ns where w: "walk 0 [] (segments p) = (k, ns)"
    by (cases "walk 0 [] (segments p)")
  from assms(2) have "0 < fst (walk 0 [] (segments p))"
    using walk_climbs [of 0 "[]" "segments p"] by simp
  with w obtain j where k: "k = Suc j"
    by (cases k) auto
  from render_dotdot [of j ns] have "render k ns \<noteq> []"
    unfolding k by (auto simp add: HasPrefix_def)
  with w have "Clean p = render (Suc j) ns"
    using Clean_relative [OF p assms(1)] k by simp
  with render_dotdot [of j ns] p show ?thesis
    by (simp add: validatePath_def Let_def)
qed

lemma validatePath_inside:
  assumes "\<not> IsAbs p" and "\<not> climbs 0 (segments p)"
    and "\<forall>s\<in>set (segments p). s = ''..'' \<or> \<not> HasPrefix s ''..''"
  shows "validatePath p = None"
proof (cases "p = []")
  case True
  then show ?thesis
    by (simp add: validatePath_def)
next
  case False
  obtain k ns where w: "walk 0 [] (segments p) = (k, ns)"
    by (cases "walk 0 [] (segments p)")
  from assms(2) have "\<not> 0 < fst (walk 0 [] (segments p))"
    using walk_climbs [of 0 "[]" "segments p"] by simp
  with w have k: "k = 0"
    by simp
  have names: "\<forall>n\<in>set ns. n \<noteq> [] \<and> Separator \<notin> set n \<and> \<not> HasPrefix n ''..''"
  proof
    fix n
    assume "n \<in> set ns"
    with w have "n \<in> set (snd (walk 0 [] (segments p)))"
      by simp
    from walk_names [OF this] have n: "n \<in> set (segments p)" "n \<noteq> []" "n \<noteq> ''..''"
      by simp_all
    with assms(3) segments_no_separator [OF n(1)]
    show "n \<noteq> [] \<and> Separator \<notin> set n \<and> \<not> HasPrefix n ''..''"
      by blast
  qed
  have c: "Clean p = (if render 0 ns = [] then ''.'' else render 0 ns)"
    using Clean_relative [OF False assms(1)] w k by simp
  have d: "\<not> IsAbs ''.'' \<and> \<not> HasPrefix ''.'' ''..'' \<and> \<not> Contains ''.'' (Separator # ''..'')"
    by (simp add: IsAbs_def HasPrefix_def)
  have "render 0 ns = Join ns [Separator]"
    by (simp add: render_def)
  with Join_no_dotdot [OF names] c d
  have "\<not> IsAbs (Clean p) \<and> \<not> HasPrefix (Clean p) ''..'' \<and> \<not> Contains (Clean p) (Separator # ''..'')"
    by (cases "render 0 ns = []") simp_all
  with False show ?thesis
    by (simp add: validatePath_def Let_def)
qed

text \<open>
  Claim C1, as amended.  \<open>validatePath\<close> cleans the path before it looks for \<open>..\<close>, so
  a \<open>..\<close> component that a name before it cancels does no harm: \<open>a/../b\<close> is accepted.
  The validator fails for every absolute path, and for every relative path that climbs
  above the directory it starts from, that is, one of whose \<open>..\<close> components has no
  name left to cancel once empty and \<open>.\<close> components are dropped (as in \<open>../secret\<close>
  and \<open>packages/../../secret\<close>).  It succeeds for every relative path that does not
  climb and in which no component other than \<open>..\<close> itself begins with two dots; the
  empty path, \<open>.\<close> and \<open>a/../b\<close> are among these.
\<close>

theorem work_dir_validator:
  "(IsAbs p \<longrightarrow> validatePath p = Some AbsolutePath)
   \<and> (\<not> IsAbs p \<and> climbs 0 (segments p) \<longrightarrow> validatePath p = Some PathTraversal)
   \<and> (\<not> IsAbs p \<and> \<not> climbs 0 (segments p)
        \<and> (\<forall>s\<in>set (segments p). s = ''..'' \<or> \<not> HasPrefix s ''..'')
      \<longrightarrow> validatePath p = None)
   \<and> validatePath [] = None
   \<and> validatePath ''.'' = None
   \<and> validatePath ''a/../b'' = None"
proof -
  have "validatePath ''a/../b'' = None"
    by code_simp
  moreover have "validatePath [] = None"
    by (simp add: validatePath_def)
  ultimately show ?thesis
    using validatePath_absolute [of p] validatePath_climbs [of p] validatePath_inside [of p]
      validatePath_dot
    by blast
qed

theorem work_dir_validator_witness:
  "validatePath ''/etc/passwd'' = Some AbsolutePath
   \<and> validatePath ''packages/../../secret'' = Some PathTraversal
   \<and> validatePath ''packages/my-lib'' = None
   \<and> validatePath ''docs/./api//../guide'' = None"
proof -
  have h1: "IsAbs ''/etc/passwd''"
    by (simp add: IsAbs_def HasPrefix_def)
  have h2: "\<not> IsAbs ''packages/../../secret'' \<and> climbs 0 (segments ''packages/../../secret'')"
    by code_simp
  have h3: "\<not> IsAbs ''packages/my-lib'' \<and> \<not> climbs 0 (segments ''packages/my-lib'')
      \<and> (\<forall>s\<in>set (segments ''packages/my-lib''). s = ''..'' \<or> \<not> HasPrefix s ''..'')"
    by code_simp
  have h4: "\<not> IsAbs ''docs/./api//../guide'' \<and> \<not> climbs 0 (segments ''docs/./api//../guide'')
      \<and> (\<forall>s\<in>set (segments ''docs/./api//../guide''). s = ''..'' \<or> \<not> HasPrefix s ''..'')"
    by code_simp
  from work_dir_validator [of "''/etc/passwd''"] h1
  have r1: "validatePath ''/etc/passwd'' = Some AbsolutePath"
    by blast
  from work_dir_validator [of "''packages/../../secret''"] h2
  have r2: "validatePath ''packages/../../secret'' = Some PathTraversal"
    by blast
  from work_dir_validator [of "''packages/my-lib''"] h3
  have r3: "validatePath ''packages/my-lib'' = None"
    by blast
  from work_dir_validator [of "''docs/./api//../guide''"] h4
  have r4: "validatePath ''docs/./api//../guide'' = None"
    by blast
  from r1 r2 r3 r4 show ?thesis
    by blast
qed

text \<open>
  Claim C1 as it was stated fails in both directions: \<open>a/../b\<close> has a \<open>..\<close> component
  and is accepted, and \<open>..foo\<close> is a relative path without a \<open>..\<close> component and is
  rejected.
\<close>

theorem work_dir_validator_counterexample:
  "''..'' \<in> set (segments ''a/../b'') \<and> validatePath ''a/../b'' = None
   \<and> \<not> IsAbs ''..foo'' \<and> ''..'' \<notin> set (segments ''..foo'')
   \<and> validatePath ''..foo'' = Some PathTraversal"
  by code_simp

end
